theory Spec2Isabelle
  imports Complex_Main "HOL-Library.Char_ord" "HOL-Library.List_Lexorder"
begin

section \<open>The user collection\<close>

text \<open>
  A user document as the schema of \<^verbatim>\<open>models/User.ts\<close> declares it. The field \<^verbatim>\<open>id\<close> is
  called \<open>userId\<close> here (\<open>id\<close> is the identity function of HOL). JavaScript numbers are
  modelled as reals (the popularity score, graph coordinates) and the age as an integer.
  The timestamps \<^verbatim>\<open>createdAt\<close>/\<^verbatim>\<open>updatedAt\<close> are read by none of the operations below and
  are left out.
\<close>

record user =
  userId :: string
  username :: string
  age :: int
  hobbies :: "string list"
  friends :: "string list"
  popularityScore :: real

text \<open>The collection, in insertion order (the order \<^verbatim>\<open>find({})\<close> iterates in).\<close>

type_synonym store = "user list"

text \<open>
  The messages thrown by the model and the service, as values:
  \<^item> \<open>UsernameExists\<close>: \<^verbatim>\<open>'Username already exists'\<close> (the spec's DuplicateName);
  \<^item> \<open>CannotDelete\<close>: \<^verbatim>\<open>'Cannot delete user with existing friendships...'\<close> (HasFriends);
  \<^item> \<open>UserNotFound\<close>, \<open>FriendNotFound\<close>: \<^verbatim>\<open>'User not found'\<close>, \<^verbatim>\<open>'Friend not found'\<close> (NotFound);
  \<^item> \<open>AlreadyFriends\<close>: \<^verbatim>\<open>'Users are already friends'\<close> (AlreadyLinked);
  \<^item> \<open>SelfFriend\<close>: \<^verbatim>\<open>'User cannot be friends with themselves'\<close> (SelfLink);
  \<^item> \<open>NotFriends\<close>: \<^verbatim>\<open>'Users are not friends'\<close> (NotLinked);
  \<^item> \<open>HobbyNotFound\<close>: \<^verbatim>\<open>'Hobby not found'\<close>;
  \<^item> \<open>Failed\<close>: any other error, rethrown as \<^verbatim>\<open>'Failed to ...'\<close> (here: a schema validator
    or the unique index on \<^verbatim>\<open>id\<close> rejecting a save).
\<close>

datatype error =
    UsernameExists
  | CannotDelete
  | UserNotFound
  | FriendNotFound
  | AlreadyFriends
  | SelfFriend
  | NotFriends
  | HobbyNotFound
  | Failed

subsection \<open>Strings and sets of strings\<close>

text \<open>
  A \<open>char\<close> stands for a UTF-16 code unit below 256; strings with other code units are
  outside the model. The white space of \<^verbatim>\<open>String.prototype.trim\<close> in that range is the tab,
  the line feed, the vertical tab, the form feed, the carriage return, the space and the
  no-break space U+00A0.
\<close>

definition isSpace :: "char \<Rightarrow> bool" where
  "isSpace c =
     (c \<in> set [CHR 0x09, CHR 0x0A, CHR 0x0B, CHR 0x0C, CHR 0x0D, CHR '' '', CHR 0xA0])"

definition trim :: "string \<Rightarrow> string" where
  "trim str = rev (dropWhile isSpace (rev (dropWhile isSpace str)))"

definition uniq :: "'a list \<Rightarrow> 'a list" where
  \<comment> \<open>\<^verbatim>\<open>[...new Set(xs)]\<close>: the first occurrence of each element, in order\<close>
  "uniq xs = rev (remdups (rev xs))"

subsection \<open>Queries\<close>

text \<open>
  A filter on \<^verbatim>\<open>username\<close> is cast through the schema before it is run, and the schema
  declares \<^verbatim>\<open>trim: true\<close> for that path: the query looks the trimmed name up.
\<close>

definition findOne :: "store \<Rightarrow> string \<Rightarrow> user option" where
  \<comment> \<open>\<^verbatim>\<open>findOne({ id })\<close>\<close>
  "findOne s i = find (\<lambda>u. userId u = i) s"

definition findOneByUsername :: "store \<Rightarrow> string \<Rightarrow> user option" where
  \<comment> \<open>\<^verbatim>\<open>findOne({ username })\<close>\<close>
  "findOneByUsername s n = find (\<lambda>u. username u = trim n) s"

definition findOneByUsernameNotId :: "store \<Rightarrow> string \<Rightarrow> string \<Rightarrow> user option" where
  \<comment> \<open>\<^verbatim>\<open>findOne({ username, id: { $ne: id } })\<close>\<close>
  "findOneByUsernameNotId s n i = find (\<lambda>v. username v = trim n \<and> userId v \<noteq> i) s"

definition findIn :: "store \<Rightarrow> string list \<Rightarrow> user list" where
  \<comment> \<open>\<^verbatim>\<open>find({ id: { $in: ids } })\<close>\<close>
  "findIn s ids = filter (\<lambda>u. userId u \<in> set ids) s"

subsection \<open>Saving a document\<close>

definition preSave :: "user \<Rightarrow> user" where
  \<comment> \<open>the \<^verbatim>\<open>pre('save')\<close> hook: blank hobbies dropped, duplicates removed\<close>
  "preSave doc = doc\<lparr>hobbies := uniq (filter (\<lambda>hobby. trim hobby \<noteq> []) (hobbies doc))\<rparr>"

definition replaceDoc :: "store \<Rightarrow> user \<Rightarrow> store" where
  \<comment> \<open>the write of a save: the stored document of that id is replaced\<close>
  "replaceDoc s doc = map (\<lambda>v. if userId v = userId doc then doc else v) s"

definition save :: "store \<Rightarrow> user \<Rightarrow> user \<times> store" where
  \<comment> \<open>\<^verbatim>\<open>doc.save()\<close> of a document loaded from the collection: the hook runs, then the
      document is written; the in-memory document is returned too\<close>
  "save s doc = (let doc' = preSave doc in (doc', replaceDoc s doc'))"

definition insertNew :: "store \<Rightarrow> user \<Rightarrow> user \<times> store" where
  \<comment> \<open>\<^verbatim>\<open>doc.save()\<close> of a new document\<close>
  "insertNew s doc = (let doc' = preSave doc in (doc', s @ [doc']))"

section \<open>Score engine\<close>

definition round2 :: "real \<Rightarrow> real" where
  \<comment> \<open>\<^verbatim>\<open>Math.round(x * 100) / 100\<close>; \<^verbatim>\<open>Math.round\<close> rounds a half up\<close>
  "round2 x = real_of_int \<lfloor>x * 100 + 1 / 2\<rfloor> / 100"

definition sharedHobbies :: "user \<Rightarrow> user \<Rightarrow> string list" where
  \<comment> \<open>\<^verbatim>\<open>[...userHobbies].filter(hobby => friendHobbies.has(hobby))\<close>\<close>
  "sharedHobbies this friend =
     filter (\<lambda>hobby. hobby \<in> set (hobbies friend)) (uniq (hobbies this))"

definition calculatePopularityScore :: "store \<Rightarrow> user \<Rightarrow> real \<times> user \<times> store" where
  \<comment> \<open>returns the value, the in-memory document and the collection\<close>
  "calculatePopularityScore s this =
     (let friendsCount = length (friends this)
      in if friendsCount = 0 then (0, this, s)
         else
           let found = findIn s (friends this);
               sharedHobbiesScore =
                 foldl (\<lambda>acc friend. acc + real (length (sharedHobbies this friend)) * 0.5)
                   0 found;
               totalScore = real friendsCount + sharedHobbiesScore;
               this1 = this\<lparr>popularityScore := round2 totalScore\<rparr>;
               (this2, s') = save s this1
           in (popularityScore this2, this2, s'))"

definition codeScore :: "store \<Rightarrow> user \<Rightarrow> real" where
  \<comment> \<open>the score that \<^verbatim>\<open>calculatePopularityScore\<close> stores when there is a friend\<close>
  "codeScore s this =
     round2 (real (length (friends this))
       + foldl (\<lambda>acc friend. acc + real (length (sharedHobbies this friend)) * 0.5) 0
           (findIn s (friends this)))"

section \<open>Relationship manager\<close>

text \<open>
  The two methods of the model. \<^verbatim>\<open>Promise.all\<close> starts its promises in the order written; the
  two saves write two different documents, and each recomputation reads hobbies and
  friends only and writes its own document's score, so running them one after the other
  gives the collection that any interleaving gives. The saves in these two methods touch
  \<^verbatim>\<open>friends\<close> and \<^verbatim>\<open>popularityScore\<close>; they are modelled on an available store.
\<close>

definition addFriend :: "store \<Rightarrow> user \<Rightarrow> string \<Rightarrow> (error + unit) \<times> store" where
  "addFriend s this friendId =
     (if friendId \<in> set (friends this) then (Inl AlreadyFriends, s)
      else if friendId = userId this then (Inl SelfFriend, s)
      else case findOne s friendId of
        None \<Rightarrow> (Inl FriendNotFound, s)
      | Some friend \<Rightarrow>
          let this1 = this\<lparr>friends := friends this @ [friendId]\<rparr>;
              friend1 = friend\<lparr>friends := friends friend @ [userId this]\<rparr>;
              (this2, s1) = save s this1;
              (friend2, s2) = save s1 friend1;
              (score1, this3, s3) = calculatePopularityScore s2 this2;
              (score2, friend3, s4) = calculatePopularityScore s3 friend2
          in (Inr (), s4))"

definition removeFriend :: "store \<Rightarrow> user \<Rightarrow> string \<Rightarrow> (error + unit) \<times> store" where
  "removeFriend s this friendId =
     (if friendId \<notin> set (friends this) then (Inl NotFriends, s)
      else case findOne s friendId of
        None \<Rightarrow> (Inl FriendNotFound, s)
      | Some friend \<Rightarrow>
          let this1 = this\<lparr>friends := filter (\<lambda>i. i \<noteq> friendId) (friends this)\<rparr>;
              friend1 = friend\<lparr>friends := filter (\<lambda>i. i \<noteq> userId this1) (friends friend)\<rparr>;
              (this2, s1) = save s this1;
              (friend2, s2) = save s1 friend1;
              (score1, this3, s3) = calculatePopularityScore s2 this2;
              (score2, friend3, s4) = calculatePopularityScore s3 friend2
          in (Inr (), s4))"

definition twoSided :: "store \<Rightarrow> user \<Rightarrow> user \<Rightarrow> store" where
  \<comment> \<open>the steps that end \<^verbatim>\<open>addFriend\<close> and \<^verbatim>\<open>removeFriend\<close>: both documents are saved, then
      both scores are recomputed\<close>
  "twoSided s this1 friend1 =
     (let (this2, s1) = save s this1;
          (friend2, s2) = save s1 friend1;
          (score1, this3, s3) = calculatePopularityScore s2 this2;
          (score2, friend3, s4) = calculatePopularityScore s3 friend2
      in s4)"

definition canDeleteUser :: "store \<Rightarrow> string \<Rightarrow> bool" where
  "canDeleteUser s i =
     (case findOne s i of None \<Rightarrow> False | Some u \<Rightarrow> length (friends u) = 0)"

definition deleteOne :: "store \<Rightarrow> string \<Rightarrow> store" where
  \<comment> \<open>\<^verbatim>\<open>deleteOne({ id })\<close>: the first document of that id goes\<close>
  "deleteOne s i = (case findOne s i of None \<Rightarrow> s | Some u \<Rightarrow> remove1 u s)"

section \<open>The service\<close>

text \<open>
  \<^verbatim>\<open>IUserInput\<close> and \<^verbatim>\<open>IUserUpdate\<close>; an absent field of the update is \<open>None\<close>.
\<close>

record userInput =
  in_username :: string
  in_age :: int
  in_hobbies :: "string list"

record userUpdate =
  upd_username :: "string option"
  upd_age :: "int option"
  upd_hobbies :: "string list option"

text \<open>The validators of the schema, on the values the setters have trimmed.\<close>

definition validUsername :: "string \<Rightarrow> bool" where
  "validUsername n = (2 \<le> length n \<and> length n \<le> 50)"

definition validAge :: "int \<Rightarrow> bool" where
  "validAge a = (13 \<le> a \<and> a \<le> 120)"

definition validHobbies :: "string list \<Rightarrow> bool" where
  "validHobbies hs = list_all (\<lambda>h. 1 \<le> length h \<and> length h \<le> 100) hs"

definition newUser :: "userInput \<Rightarrow> string \<Rightarrow> user" where
  \<comment> \<open>\<^verbatim>\<open>new User(userData)\<close>; the second argument is the value \<^verbatim>\<open>uuidv4()\<close> returns\<close>
  "newUser userData newId =
     \<lparr>userId = newId,
      username = trim (in_username userData),
      age = in_age userData,
      hobbies = map trim (in_hobbies userData),
      friends = [],
      popularityScore = 0\<rparr>"

definition createUser :: "store \<Rightarrow> userInput \<Rightarrow> string \<Rightarrow> (error + user) \<times> store" where
  "createUser s userData newId =
     (case findOneByUsername s (in_username userData) of
        Some existingUser \<Rightarrow> (Inl UsernameExists, s)
      | None \<Rightarrow>
          let user = newUser userData newId
          in if \<not> (validUsername (username user) \<and> validAge (age user)
                    \<and> validHobbies (hobbies user))
             then (Inl Failed, s)
             else if findOne s newId \<noteq> None then (Inl Failed, s)
             else
               let (user1, s1) = insertNew s user;
                   (score, user2, s2) = calculatePopularityScore s1 user1
               in (Inr user2, s2))"

definition assign :: "user \<Rightarrow> userUpdate \<Rightarrow> user" where
  \<comment> \<open>\<^verbatim>\<open>Object.assign(user, updateData)\<close>, through the schema's trimming setters\<close>
  "assign user updateData =
     user\<lparr>username := (case upd_username updateData of None \<Rightarrow> username user
                        | Some n \<Rightarrow> trim n),
          age := (case upd_age updateData of None \<Rightarrow> age user | Some a \<Rightarrow> a),
          hobbies := (case upd_hobbies updateData of None \<Rightarrow> hobbies user
                      | Some hs \<Rightarrow> map trim hs)\<rparr>"

definition updateUser ::
  "store \<Rightarrow> string \<Rightarrow> userUpdate \<Rightarrow> (error + user option) \<times> store" where
  "updateUser s i updateData =
     (case findOne s i of
        None \<Rightarrow> (Inr None, s)
      | Some user \<Rightarrow>
          if (case upd_username updateData of
                None \<Rightarrow> False
              | Some n \<Rightarrow> n \<noteq> [] \<and> n \<noteq> username user
                  \<and> findOneByUsernameNotId s n i \<noteq> None)
          then (Inl UsernameExists, s)
          else
            let user1 = assign user updateData
            in if \<not> ((upd_username updateData = None \<or> validUsername (username user1))
                      \<and> (upd_age updateData = None \<or> validAge (age user1))
                      \<and> (upd_hobbies updateData = None \<or> validHobbies (hobbies user1)))
               then (Inl Failed, s)
               else
                 let (user2, s1) = save s user1
                 in if upd_hobbies updateData \<noteq> None
                    then (let (score, user3, s2) = calculatePopularityScore s1 user2
                          in (Inr (Some user3), s2))
                    else (Inr (Some user2), s1))"

definition deleteUser :: "store \<Rightarrow> string \<Rightarrow> (error + bool) \<times> store" where
  "deleteUser s i =
     (case findOne s i of
        None \<Rightarrow> (Inr False, s)
      | Some user \<Rightarrow>
          if \<not> canDeleteUser s i then (Inl CannotDelete, s)
          else (Inr True, deleteOne s i))"

definition addFriendship :: "store \<Rightarrow> string \<Rightarrow> string \<Rightarrow> (error + unit) \<times> store" where
  "addFriendship s uid friendId =
     (case findOne s uid of
        None \<Rightarrow> (Inl UserNotFound, s)
      | Some user \<Rightarrow>
          if uid = friendId then (Inl SelfFriend, s)
          else addFriend s user friendId)"

definition removeFriendship :: "store \<Rightarrow> string \<Rightarrow> string \<Rightarrow> (error + unit) \<times> store" where
  "removeFriendship s uid friendId =
     (case findOne s uid of
        None \<Rightarrow> (Inl UserNotFound, s)
      | Some user \<Rightarrow> removeFriend s user friendId)"

definition removeHobby :: "store \<Rightarrow> string \<Rightarrow> string \<Rightarrow> (error + user option) \<times> store" where
  "removeHobby s uid hobby =
     (case findOne s uid of
        None \<Rightarrow> (Inr None, s)
      | Some user \<Rightarrow>
          if hobby \<notin> set (hobbies user) then (Inl HobbyNotFound, s)
          else
            let user1 = user\<lparr>hobbies := filter (\<lambda>h. h \<noteq> hobby) (hobbies user)\<rparr>;
                (user2, s1) = save s user1;
                (score, user3, s2) = calculatePopularityScore s1 user2
            in (Inr (Some user3), s2))"

section \<open>Graph projection\<close>

record nodeData =
  label :: string
  nd_username :: string
  nd_age :: int
  nd_hobbies :: "string list"
  nd_popularityScore :: real

record position =
  pos_x :: real
  pos_y :: real

record node =
  node_id :: string
  node_data :: nodeData
  node_position :: position
  node_type :: string

record edge =
  edge_id :: string
  edge_source :: string
  edge_target :: string
  edge_type :: string

record graphData =
  nodes :: "node list"
  edges :: "edge list"

fun showNat :: "nat \<Rightarrow> string" where
  "showNat n =
     (if n < 10 then [char_of (48 + n)] else showNat (n div 10) @ [char_of (48 + n mod 10)])"

definition showInt :: "int \<Rightarrow> string" where
  \<comment> \<open>an integer in a template literal\<close>
  "showInt i = (if i < 0 then CHR ''-'' # showNat (nat (- i)) else showNat (nat i))"

text \<open>
  \<^verbatim>\<open>Math.random()\<close> is not a function of the snapshot: the values it returns during one call of
  \<^verbatim>\<open>getGraphData\<close> are the parameter \<open>rnd\<close>, the \<open>k\<close>-th draw being \<open>rnd k\<close>. The node at
  \<open>index\<close> takes the draws \<open>2 * index\<close> (for x) and \<open>2 * index + 1\<close> (for y).
\<close>

definition mkNode :: "(nat \<Rightarrow> real) \<Rightarrow> nat \<Rightarrow> nat \<Rightarrow> user \<Rightarrow> node" where
  "mkNode rnd len index u =
     (let angle = (real index * 2 * pi) / real len;
          radius = 200;
          centerX = 400;
          centerY = 300
      in \<lparr>node_id = userId u,
          node_data =
            \<lparr>label = username u @ '' ('' @ showInt (age u) @ '')'',
             nd_username = username u,
             nd_age = age u,
             nd_hobbies = hobbies u,
             nd_popularityScore = popularityScore u\<rparr>,
          node_position =
            \<lparr>pos_x = centerX + radius * cos angle + (rnd (2 * index) - 0.5) * 100,
             pos_y = centerY + radius * sin angle + (rnd (2 * index + 1) - 0.5) * 100\<rparr>,
          node_type = (if popularityScore u > 5 then ''HighScoreNode'' else ''LowScoreNode'')\<rparr>)"

definition pairKey :: "string \<Rightarrow> string \<Rightarrow> string" where
  \<comment> \<open>\<^verbatim>\<open>[a, b].sort().join('-')\<close>: the default sort compares the strings code unit by code unit\<close>
  "pairKey a b = (if b < a then b @ ''-'' @ a else a @ ''-'' @ b)"

definition mkEdge :: "string \<Rightarrow> string \<Rightarrow> edge" where
  "mkEdge a friendId =
     \<lparr>edge_id = ''edge-'' @ a @ ''-'' @ friendId,
      edge_source = a,
      edge_target = friendId,
      edge_type = ''smoothstep''\<rparr>"

fun friendsLoop ::
  "string \<Rightarrow> string list \<Rightarrow> edge list \<times> string set \<Rightarrow> edge list \<times> string set" where
  \<comment> \<open>\<^verbatim>\<open>user.friends.forEach\<close>, on the edges and the processed pairs so far\<close>
  "friendsLoop a [] acc = acc"
| "friendsLoop a (friendId # rest) (es, processedPairs) =
     (if pairKey a friendId \<notin> processedPairs
      then friendsLoop a rest (es @ [mkEdge a friendId], insert (pairKey a friendId) processedPairs)
      else friendsLoop a rest (es, processedPairs))"

fun usersLoop :: "user list \<Rightarrow> edge list \<times> string set \<Rightarrow> edge list \<times> string set" where
  \<comment> \<open>\<^verbatim>\<open>users.forEach\<close>\<close>
  "usersLoop [] acc = acc"
| "usersLoop (u # rest) acc = usersLoop rest (friendsLoop (userId u) (friends u) acc)"

definition graphNodes :: "(nat \<Rightarrow> real) \<Rightarrow> user list \<Rightarrow> node list" where
  \<comment> \<open>\<^verbatim>\<open>users.map((user, index) => ...)\<close>\<close>
  "graphNodes rnd users =
     map (\<lambda>(index, u). mkNode rnd (length users) index u) (enumerate 0 users)"

definition graphEdges :: "user list \<Rightarrow> edge list" where
  \<comment> \<open>both nested forEach passes, starting with no edges and no processed pairs\<close>
  "graphEdges users = fst (usersLoop users ([], {}))"

definition getGraphData :: "(nat \<Rightarrow> real) \<Rightarrow> store \<Rightarrow> graphData" where
  "getGraphData rnd s =
     (let users = s in \<lparr>nodes = graphNodes rnd users, edges = graphEdges users\<rparr>)"

section \<open>Statistics\<close>

record userStats =
  totalUsers :: nat
  totalFriendships :: real
  averagePopularityScore :: real
  topUsers :: "user list"

text \<open>
  The average score is a quotient of doubles, rounded by \<^verbatim>\<open>Math.round(x * 100) / 100\<close> in
  double arithmetic; that arithmetic is not modelled, and the value the expression has on
  the list of stored scores is the parameter \<open>roundedAverage\<close>. The sum of the lengths of the
  friends lists is an integer and its half is exact. The order in which the sort by
  descending score leaves documents of equal score is not fixed by the source; the model
  keeps them in collection order.
\<close>

definition getUserStats :: "(real list \<Rightarrow> real) \<Rightarrow> store \<Rightarrow> userStats" where
  "getUserStats roundedAverage s =
     (let users = s
      in \<lparr>totalUsers = length s,
          totalFriendships = real (foldl (\<lambda>sum u. sum + length (friends u)) 0 users) / 2,
          averagePopularityScore = roundedAverage (map popularityScore users),
          topUsers = take 5 (sort_key (\<lambda>u. - popularityScore u) s)\<rparr>)"

section \<open>The properties of the specification\<close>

text \<open>
  The data model of the specification: ids are unique, and \<^verbatim>\<open>friends\<close> is a set of ids of
  other users of the collection.
\<close>

definition wf_store :: "store \<Rightarrow> bool" where
  "wf_store s =
     (distinct (map userId s)
      \<and> list_all (\<lambda>u. distinct (friends u) \<and> userId u \<notin> set (friends u)
                       \<and> list_all (\<lambda>f. f \<in> set (map userId s)) (friends u)) s)"

definition symmetric :: "store \<Rightarrow> bool" where
  \<comment> \<open>for all users a, b: b is in a's friends iff a is in b's friends\<close>
  "symmetric s =
     list_all (\<lambda>a. list_all (\<lambda>b. (userId b \<in> set (friends a)) = (userId a \<in> set (friends b))) s) s"

definition hobbiesOf :: "store \<Rightarrow> string \<Rightarrow> string list" where
  "hobbiesOf s i = (case findOne s i of None \<Rightarrow> [] | Some u \<Rightarrow> hobbies u)"

definition spec_score :: "store \<Rightarrow> user \<Rightarrow> real" where
  \<comment> \<open>the formula of the specification: the number of friends plus half the number of
      hobbies shared with each friend, rounded to two decimals\<close>
  "spec_score s u =
     round2 (real (card (set (friends u)))
             + 0.5 * real (\<Sum>f\<in>set (friends u). card (set (hobbies u) \<inter> set (hobbiesOf s f))))"

definition scoreCurrent :: "store \<Rightarrow> string \<Rightarrow> bool" where
  \<comment> \<open>the user of this id is stored, and the stored score is the formula on the collection\<close>
  "scoreCurrent s i =
     (case findOne s i of None \<Rightarrow> False | Some u \<Rightarrow> popularityScore u = spec_score s u)"

definition hasFriend :: "store \<Rightarrow> string \<Rightarrow> bool" where
  "hasFriend s i = (case findOne s i of None \<Rightarrow> False | Some u \<Rightarrow> friends u \<noteq> [])"

definition scoresConsistent :: "store \<Rightarrow> bool" where
  \<comment> \<open>every stored score is the formula on the collection\<close>
  "scoresConsistent s = list_all (\<lambda>u. popularityScore u = spec_score s u) s"

definition friendLinks :: "store \<Rightarrow> (string \<times> string) list" where
  \<comment> \<open>every (user, friend) entry of the collection\<close>
  "friendLinks s = concat (map (\<lambda>u. map (\<lambda>f. (userId u, f)) (friends u)) s)"

definition friendPairs :: "store \<Rightarrow> string set set" where
  \<comment> \<open>the unordered friend pairs; their number is the e of the specification\<close>
  "friendPairs s = (\<lambda>(a, b). {a, b}) ` set (friendLinks s)"

definition pairKeys :: "store \<Rightarrow> string set" where
  \<comment> \<open>the pair keys of all (user, friend) entries\<close>
  "pairKeys s = (\<lambda>(a, b). pairKey a b) ` set (friendLinks s)"

definition uniformIds :: "nat \<Rightarrow> store \<Rightarrow> bool" where
  \<comment> \<open>every id of the collection, of a user or in a friends list, has the length \<open>len\<close>
      (36 for the UUIDs that \<^verbatim>\<open>uuidv4\<close> generates)\<close>
  "uniformIds len s =
     list_all (\<lambda>u. length (userId u) = len \<and> list_all (\<lambda>f. length f = len) (friends u)) s"

definition stripPosition :: "node \<Rightarrow> string \<times> nodeData \<times> string" where
  \<comment> \<open>a node without its position\<close>
  "stripPosition n = (node_id n, node_data n, node_type n)"

section \<open>Example collections\<close>

definition exAlice :: user where
  "exAlice = \<lparr>userId = ''u1'', username = ''alice'', age = 25,
     hobbies = [''coding'', ''gaming''], friends = [], popularityScore = 0\<rparr>"

definition exBob :: user where
  "exBob = \<lparr>userId = ''u2'', username = ''bob'', age = 30,
     hobbies = [''coding'', ''music''], friends = [], popularityScore = 0\<rparr>"

definition exCarol :: user where
  "exCarol = \<lparr>userId = ''u3'', username = ''carol'', age = 28,
     hobbies = [''gaming'', ''sports''], friends = [], popularityScore = 0\<rparr>"

definition exStore :: store where
  \<comment> \<open>three users, no friendship yet\<close>
  "exStore = [exAlice, exBob, exCarol]"

definition exFriends :: store where
  \<comment> \<open>alice and bob are friends: \<open>exStore\<close> after linking \<open>u1\<close> and \<open>u2\<close>\<close>
  "exFriends =
     [exAlice\<lparr>friends := [''u2''], popularityScore := 1.5\<rparr>,
      exBob\<lparr>friends := [''u1''], popularityScore := 1.5\<rparr>,
      exCarol]"

definition exDave :: userInput where
  "exDave = \<lparr>in_username = '' dave '', in_age = 41, in_hobbies = [''chess'']\<rparr>"

definition exRename :: userUpdate where
  "exRename = \<lparr>upd_username = Some ''alice'', upd_age = None, upd_hobbies = None\<rparr>"

definition exStar :: store where
  \<comment> \<open>alice is a friend of bob and of carol: \<open>exFriends\<close> after linking \<open>u1\<close> and \<open>u3\<close>\<close>
  "exStar =
     [exAlice\<lparr>friends := [''u2'', ''u3''], popularityScore := 3\<rparr>,
      exBob\<lparr>friends := [''u1''], popularityScore := 1.5\<rparr>,
      exCarol\<lparr>friends := [''u1''], popularityScore := 1.5\<rparr>]"

definition exHyphen :: store where
  \<comment> \<open>two friendships between four users whose ids contain the separator of the pair key\<close>
  "exHyphen =
     [exAlice\<lparr>userId := ''a-b'', friends := [''c''], popularityScore := 1\<rparr>,
      exBob\<lparr>userId := ''c'', friends := [''a-b''], popularityScore := 1\<rparr>,
      exCarol\<lparr>userId := ''a'', friends := [''b-c''], popularityScore := 1\<rparr>,
      exAlice\<lparr>userId := ''b-c'', username := ''dora'', friends := [''a''], popularityScore := 1\<rparr>]"

definition drawsZero :: "nat \<Rightarrow> real" where
  \<comment> \<open>every draw of \<^verbatim>\<open>Math.random()\<close> is 0\<close>
  "drawsZero k = 0"

definition drawsHalf :: "nat \<Rightarrow> real" where
  \<comment> \<open>every draw of \<^verbatim>\<open>Math.random()\<close> is 0.5\<close>
  "drawsHalf k = 1 / 2"

definition exChess :: userUpdate where
  \<comment> \<open>a hobby update\<close>
  "exChess = \<lparr>upd_username = None, upd_age = None, upd_hobbies = Some [''chess'']\<rparr>"

lemmas ex_defs = exStore_def exAlice_def exBob_def exCarol_def exFriends_def exStar_def

lemmas op_defs = addFriendship_def addFriend_def removeFriendship_def removeFriend_def
  findOne_def save_def replaceDoc_def preSave_def calculatePopularityScore_def findIn_def
  sharedHobbies_def
  uniq_def trim_def isSpace_def round2_def Let_def

section \<open>Order of the checks of a link\<close>

text \<open>
  C9 (as the code has it). \<^verbatim>\<open>addFriendship\<close> loads the user before it compares the two ids:
  linking an id to itself fails with \<^verbatim>\<open>'User not found'\<close> when no user has that id, and
  with \<^verbatim>\<open>'User cannot be friends with themselves'\<close> when one has. The collection is left as
  it was in both cases.
\<close>

theorem self_link_result:
  "addFriendship s a a =
     (if findOne s a = None then (Inl UserNotFound, s) else (Inl SelfFriend, s))"
  by (simp add: addFriendship_def split: option.splits)

theorem self_link_result_witness:
  "addFriendship exStore ''u1'' ''u1'' = (Inl SelfFriend, exStore)
   \<and> addFriendship exStore ''u9'' ''u9'' = (Inl UserNotFound, exStore)"
  using self_link_result [of exStore "''u1''"] self_link_result [of exStore "''u9''"]
  by (simp add: ex_defs findOne_def)

text \<open>
  C9 as stated fails: for the id \<open>u9\<close>, which no user of the example collection has, the
  self link is answered with \<^verbatim>\<open>'User not found'\<close>, not with the self-link error.
\<close>

theorem self_link_missing_user_counterexample:
  "fst (addFriendship exStore ''u9'' ''u9'') = Inl UserNotFound
   \<and> fst (addFriendship exStore ''u9'' ''u9'') \<noteq> Inl SelfFriend"
  by (simp add: addFriendship_def findOne_def ex_defs)

section \<open>Failed links and unlinks change nothing\<close>

lemma addFriend_error:
  "fst (addFriend s this b) = Inl e \<Longrightarrow>
   snd (addFriend s this b) = s \<and> e \<in> {AlreadyFriends, SelfFriend, FriendNotFound}"
  by (auto simp: addFriend_def Let_def split: if_splits option.splits prod.splits)

lemma removeFriend_error:
  "fst (removeFriend s this b) = Inl e \<Longrightarrow>
   snd (removeFriend s this b) = s \<and> e \<in> {NotFriends, FriendNotFound}"
  by (auto simp: removeFriend_def Let_def split: if_splits option.splits prod.splits)

text \<open>
  C4. When \<^verbatim>\<open>addFriendship\<close> or \<^verbatim>\<open>removeFriendship\<close> ends in an error, the collection it
  leaves is the collection it started from: every check comes before the first save. The
  errors are the business-rule violations only (not found, self link, already friends,
  not friends).
\<close>

theorem failed_link_unlink_unchanged:
  "(fst (addFriendship s a b) = Inl e \<longrightarrow>
      snd (addFriendship s a b) = s
      \<and> e \<in> {UserNotFound, SelfFriend, AlreadyFriends, FriendNotFound})
   \<and> (fst (removeFriendship s a b) = Inl e' \<longrightarrow>
      snd (removeFriendship s a b) = s \<and> e' \<in> {UserNotFound, NotFriends, FriendNotFound})"
  using addFriend_error removeFriend_error
  by (auto simp: addFriendship_def removeFriendship_def split: option.splits if_splits)

lemma exFriends_reached: "snd (addFriendship exStore ''u1'' ''u2'') = exFriends"
  by (simp add: ex_defs op_defs)

theorem failed_link_unlink_unchanged_witness:
  "fst (addFriendship exFriends ''u1'' ''u2'') = Inl AlreadyFriends
   \<and> snd (addFriendship exFriends ''u1'' ''u2'') = exFriends
   \<and> fst (removeFriendship exFriends ''u1'' ''u3'') = Inl NotFriends
   \<and> snd (removeFriendship exFriends ''u1'' ''u3'') = exFriends"
  using failed_link_unlink_unchanged [of exFriends "''u1''" "''u2''" AlreadyFriends]
    failed_link_unlink_unchanged [of exFriends "''u1''" "''u3''" _ NotFriends]
  by (simp add: ex_defs op_defs)

section \<open>Deletion guard\<close>

lemma findOne_Some: "findOne s i = Some u \<Longrightarrow> u \<in> set s \<and> userId u = i"
  by (auto simp: findOne_def find_Some_iff)

lemma findOne_None: "(findOne s i = None) = (i \<notin> set (map userId s))"
  by (auto simp: findOne_def find_None_iff)

lemma findOne_unique:
  "distinct (map userId s) \<Longrightarrow> u \<in> set s \<Longrightarrow> findOne s (userId u) = Some u"
  unfolding findOne_def by (induction s) auto

lemma findOne_remove1:
  "distinct (map userId s) \<Longrightarrow> findOne s i = Some u \<Longrightarrow> findOne (remove1 u s) i = None"
proof -
  assume d: "distinct (map userId s)" and f: "findOne s i = Some u"
  from f have u: "u \<in> set s" "userId u = i" by (auto dest: findOne_Some)
  have "distinct s" using d by (simp add: distinct_map)
  { fix v assume "v \<in> set (remove1 u s)"
    then have "v \<in> set s" "v \<noteq> u" using \<open>distinct s\<close> by auto
    then have "userId v \<noteq> i" using d u by (auto simp: distinct_map inj_on_def) }
  then show ?thesis by (auto simp: findOne_None)
qed

text \<open>
  C7. For an existing user, \<^verbatim>\<open>deleteUser\<close> throws \<^verbatim>\<open>'Cannot delete user with existing
  friendships'\<close> and leaves the collection as it was when the user has a friend; it returns
  true and removes the document when the friends list is empty, and in no other case.
  Ids being unique, no user of that id is left after the deletion.
\<close>

theorem delete_guard:
  assumes "findOne s i = Some u"
  shows "(friends u \<noteq> [] \<longrightarrow> deleteUser s i = (Inl CannotDelete, s))
    \<and> (friends u = [] \<longrightarrow> deleteUser s i = (Inr True, remove1 u s))
    \<and> ((fst (deleteUser s i) = Inr True) = (friends u = []))
    \<and> (friends u = [] \<longrightarrow> distinct (map userId s)
         \<longrightarrow> findOne (snd (deleteUser s i)) i = None)"
  using assms findOne_remove1 [of s i u]
  by (auto simp: deleteUser_def canDeleteUser_def deleteOne_def)

text \<open>
  Alice cannot be deleted while bob is her friend; after the unlink she can.
\<close>

theorem delete_guard_witness:
  "deleteUser exFriends ''u1'' = (Inl CannotDelete, exFriends)
   \<and> fst (deleteUser (snd (removeFriendship exFriends ''u1'' ''u2'')) ''u1'') = Inr True
   \<and> findOne (snd (deleteUser (snd (removeFriendship exFriends ''u1'' ''u2'')) ''u1'')) ''u1''
       = None"
  using delete_guard [of exFriends "''u1''"
      "exAlice\<lparr>friends := [''u2''], popularityScore := 1.5\<rparr>"]
    delete_guard [of "snd (removeFriendship exFriends ''u1'' ''u2'')" "''u1''"
      "exAlice\<lparr>popularityScore := 1.5\<rparr>"]
  by (simp add: ex_defs op_defs)

section \<open>Unique usernames\<close>

lemma find_append_last:
  "find P xs = None \<Longrightarrow> P y \<Longrightarrow> find P (xs @ [y]) = Some y"
  by (induction xs) (auto split: if_splits)

lemma trim_prefix: "\<exists>ws. dropWhile isSpace str = trim str @ ws"
proof -
  let ?ys = "dropWhile isSpace str"
  have "rev (dropWhile isSpace (rev ?ys)) @ rev (takeWhile isSpace (rev ?ys))
      = rev (takeWhile isSpace (rev ?ys) @ dropWhile isSpace (rev ?ys))"
    by (simp only: rev_append)
  also have "\<dots> = rev (rev ?ys)"
    by (simp only: takeWhile_dropWhile_id)
  also have "\<dots> = ?ys"
    by (rule rev_rev_ident)
  finally have "?ys = trim str @ rev (takeWhile isSpace (rev ?ys))"
    unfolding trim_def by (rule sym)
  then show ?thesis ..
qed

lemma trim_idem: "trim (trim str) = trim str"
proof -
  let ?zs = "trim str"
  have lead: "dropWhile isSpace ?zs = ?zs"
  proof (cases "?zs = []")
    case True
    then show ?thesis by simp
  next
    case False
    obtain ws where ws: "dropWhile isSpace str = ?zs @ ws"
      using trim_prefix by blast
    then have "dropWhile isSpace str \<noteq> []" using False by simp
    then have "\<not> isSpace (hd (dropWhile isSpace str))" by (rule hd_dropWhile)
    then have "\<not> isSpace (hd ?zs)" using ws False by simp
    then show ?thesis using False by (cases ?zs) simp_all
  qed
  have "dropWhile isSpace (rev ?zs) = rev ?zs"
    by (simp add: trim_def)
  then have "rev (dropWhile isSpace (rev (dropWhile isSpace ?zs))) = ?zs"
    unfolding lead by simp
  then show ?thesis by (simp add: trim_def [of ?zs])
qed

text \<open>Every name that a creation or an update stores is trimmed.\<close>

lemma stored_names_trimmed:
  "trim (username (newUser d newId)) = username (newUser d newId)"
  "upd_username upd = Some n \<Longrightarrow> trim (username (assign u upd)) = username (assign u upd)"
  by (simp_all add: newUser_def assign_def trim_idem)

lemma createUser_success:
  assumes "fst (createUser s d newId) = Inr v"
  shows "findOneByUsername s (in_username d) = None
    \<and> createUser s d newId = (Inr (preSave (newUser d newId)), s @ [preSave (newUser d newId)])"
  using assms
  by (auto simp: createUser_def insertNew_def calculatePopularityScore_def Let_def newUser_def
      preSave_def split: option.splits if_splits)

lemma createUser_duplicate:
  assumes "v \<in> set s" and "username v = trim (in_username d)"
  shows "createUser s d newId = (Inl UsernameExists, s)"
proof -
  have "findOneByUsername s (in_username d) \<noteq> None"
    using assms by (auto simp: findOneByUsername_def find_None_iff)
  then show ?thesis by (auto simp: createUser_def)
qed

lemma createUser_twice:
  assumes "fst (createUser s d newId) = Inr v"
  shows "createUser (snd (createUser s d newId)) d newId'
           = (Inl UsernameExists, snd (createUser s d newId))"
proof -
  let ?x = "preSave (newUser d newId)"
  from createUser_success [OF assms]
  have c: "createUser s d newId = (Inr ?x, s @ [?x])" by simp
  have "?x \<in> set (s @ [?x])" by simp
  moreover have "username ?x = trim (in_username d)"
    by (simp add: preSave_def newUser_def)
  ultimately have "createUser (s @ [?x]) d newId' = (Inl UsernameExists, s @ [?x])"
    by (rule createUser_duplicate)
  then show ?thesis unfolding c by simp
qed

lemma updateUser_duplicate:
  assumes "findOne s i = Some u" "upd_username upd = Some n" "n \<noteq> []" "n \<noteq> username u"
    "w \<in> set s" "username w = trim n" "userId w \<noteq> i"
  shows "updateUser s i upd = (Inl UsernameExists, s)"
proof -
  have "findOneByUsernameNotId s n i \<noteq> None"
    using assms(5-7) by (auto simp: findOneByUsernameNotId_def find_None_iff)
  then show ?thesis using assms(1-4) by (simp add: updateUser_def)
qed

text \<open>
  C8. \<^verbatim>\<open>createUser\<close> throws \<^verbatim>\<open>'Username already exists'\<close> when a stored user holds the
  username of the request, which the schema trims for the lookup as it does for the
  document; so does \<^verbatim>\<open>updateUser\<close> when it renames a user to a name that a user of another
  id holds. In both cases the collection is left as it was. A name given exactly as a
  stored user holds it is such a name, stored names being trimmed. Of two creations with
  the same name, trimmed or not, the second fails.
\<close>

theorem duplicate_name_rejected:
  "(v \<in> set s \<and> username v = trim (in_username d) \<longrightarrow>
      createUser s d newId = (Inl UsernameExists, s))
   \<and> (v \<in> set s \<and> username v = in_username d \<and> trim (username v) = username v \<longrightarrow>
      createUser s d newId = (Inl UsernameExists, s))
   \<and> (findOne s i = Some u \<and> upd_username upd = Some n \<and> n \<noteq> [] \<and> n \<noteq> username u
        \<and> w \<in> set s \<and> username w = trim n \<and> userId w \<noteq> i \<longrightarrow>
      updateUser s i upd = (Inl UsernameExists, s))
   \<and> (fst (createUser s d newId) = Inr v' \<longrightarrow>
      createUser (snd (createUser s d newId)) d newId'
        = (Inl UsernameExists, snd (createUser s d newId)))"
proof (intro conjI impI)
  assume "v \<in> set s \<and> username v = trim (in_username d)"
  then show "createUser s d newId = (Inl UsernameExists, s)"
    using createUser_duplicate by blast
next
  assume a: "v \<in> set s \<and> username v = in_username d \<and> trim (username v) = username v"
  then have "username v = trim (in_username d)" by metis
  with a show "createUser s d newId = (Inl UsernameExists, s)"
    using createUser_duplicate by blast
next
  assume "findOne s i = Some u \<and> upd_username upd = Some n \<and> n \<noteq> [] \<and> n \<noteq> username u
        \<and> w \<in> set s \<and> username w = trim n \<and> userId w \<noteq> i"
  then show "updateUser s i upd = (Inl UsernameExists, s)"
    using updateUser_duplicate [of s i u upd n w] by blast
next
  assume "fst (createUser s d newId) = Inr v'"
  then show "createUser (snd (createUser s d newId)) d newId'
        = (Inl UsernameExists, snd (createUser s d newId))"
    by (rule createUser_twice)
qed

text \<open>
  The name \<open>alice\<close> is taken: a creation with it fails, with or without surrounding
  spaces, and so does renaming bob to it. Of two creations of \<open>dave\<close> given with spaces
  the first succeeds and the second fails.
\<close>

theorem duplicate_name_rejected_witness:
  "createUser exStore \<lparr>in_username = '' alice '', in_age = 41, in_hobbies = [''chess'']\<rparr> ''u4''
     = (Inl UsernameExists, exStore)
   \<and> createUser exStore \<lparr>in_username = ''alice'', in_age = 41, in_hobbies = [''chess'']\<rparr> ''u4''
     = (Inl UsernameExists, exStore)
   \<and> updateUser exStore ''u2'' exRename = (Inl UsernameExists, exStore)
   \<and> fst (createUser exStore exDave ''u4'') = Inr (newUser exDave ''u4'')
   \<and> createUser (snd (createUser exStore exDave ''u4'')) exDave ''u5''
       = (Inl UsernameExists, snd (createUser exStore exDave ''u4''))"
proof -
  have first: "fst (createUser exStore exDave ''u4'') = Inr (newUser exDave ''u4'')"
    by (simp add: ex_defs exDave_def createUser_def findOneByUsername_def findOne_def
        newUser_def trim_def isSpace_def validUsername_def validAge_def validHobbies_def
        insertNew_def preSave_def uniq_def calculatePopularityScore_def Let_def)
  have mem: "exAlice \<in> set exStore" by (simp add: exStore_def)
  have t1: "username exAlice = trim '' alice ''" "trim (username exAlice) = username exAlice"
    "username exAlice = trim ''alice''"
    by (simp_all add: exAlice_def trim_def isSpace_def)
  show ?thesis
    using duplicate_name_rejected [where s = exStore and v = exAlice and newId = "''u4''"
        and d = "\<lparr>in_username = '' alice '', in_age = 41, in_hobbies = [''chess'']\<rparr>",
        THEN conjunct1]
      duplicate_name_rejected [where s = exStore and v = exAlice and newId = "''u4''"
        and d = "\<lparr>in_username = ''alice'', in_age = 41, in_hobbies = [''chess'']\<rparr>",
        THEN conjunct2, THEN conjunct1]
      duplicate_name_rejected [where s = exStore and i = "''u2''" and u = exBob
        and upd = exRename and n = "''alice''" and w = exAlice,
        THEN conjunct2, THEN conjunct2, THEN conjunct1]
      duplicate_name_rejected [where s = exStore and d = exDave and newId = "''u4''"
        and v' = "newUser exDave ''u4''" and newId' = "''u5''",
        THEN conjunct2, THEN conjunct2, THEN conjunct2]
      first mem t1
    by (simp add: ex_defs exRename_def findOne_def)
qed

section \<open>The projection and its random positions\<close>

lemma stripPosition_mkNode:
  "stripPosition (mkNode r1 len i u) = stripPosition (mkNode r2 len i u)"
  by (simp add: stripPosition_def mkNode_def Let_def)

lemma graphNodes_nth:
  "i < length s \<Longrightarrow> graphNodes r s ! i = mkNode r (length s) i (s ! i)"
  by (simp add: graphNodes_def nth_enumerate_eq)

text \<open>
  C6 (as the code has it). \<^verbatim>\<open>getGraphData\<close> only reads the collection and writes nothing (it
  returns the graph and no collection). Its edges and the id, data and type of every node
  are a function of the snapshot alone: they are the same for any two sequences of random
  draws. The positions are not: each coordinate is the point of the circle layout plus
  \<^verbatim>\<open>(Math.random() - 0.5) * 100\<close>, within 50 units of that point for draws in [0, 1).
\<close>

theorem projection_up_to_positions:
  "edges (getGraphData r1 s) = edges (getGraphData r2 s)
   \<and> map stripPosition (nodes (getGraphData r1 s)) = map stripPosition (nodes (getGraphData r2 s))
   \<and> ((\<forall>k. 0 \<le> r1 k \<and> r1 k < 1) \<longrightarrow> i < length s \<longrightarrow>
        \<bar>pos_x (node_position (nodes (getGraphData r1 s) ! i))
           - (400 + 200 * cos (real i * 2 * pi / real (length s)))\<bar> \<le> 50
        \<and> \<bar>pos_y (node_position (nodes (getGraphData r1 s) ! i))
           - (300 + 200 * sin (real i * 2 * pi / real (length s)))\<bar> \<le> 50)"
proof (intro conjI impI)
  show "edges (getGraphData r1 s) = edges (getGraphData r2 s)"
    by (simp add: getGraphData_def)
  show "map stripPosition (nodes (getGraphData r1 s))
      = map stripPosition (nodes (getGraphData r2 s))"
    by (simp add: getGraphData_def graphNodes_def case_prod_beta stripPosition_mkNode [of r1 _ _ _ r2])
next
  assume r: "\<forall>k. 0 \<le> r1 k \<and> r1 k < 1" and i: "i < length s"
  have x: "0 \<le> r1 (2 * i)" "r1 (2 * i) < 1" using r by auto
  have y: "0 \<le> r1 (2 * i + 1)" "r1 (2 * i + 1) < 1" using r by auto
  show "\<bar>pos_x (node_position (nodes (getGraphData r1 s) ! i))
           - (400 + 200 * cos (real i * 2 * pi / real (length s)))\<bar> \<le> 50"
    using x i by (simp add: getGraphData_def graphNodes_nth mkNode_def Let_def abs_le_iff)
  show "\<bar>pos_y (node_position (nodes (getGraphData r1 s) ! i))
           - (300 + 200 * sin (real i * 2 * pi / real (length s)))\<bar> \<le> 50"
    using y i by (simp add: getGraphData_def graphNodes_nth mkNode_def Let_def abs_le_iff)
qed

theorem projection_up_to_positions_witness:
  "map stripPosition (nodes (getGraphData drawsZero exFriends))
     = map stripPosition (nodes (getGraphData drawsHalf exFriends))
   \<and> edges (getGraphData drawsZero exFriends) = edges (getGraphData drawsHalf exFriends)
   \<and> \<bar>pos_x (node_position (nodes (getGraphData drawsZero exFriends) ! 0)) - 600\<bar> \<le> 50
   \<and> \<bar>pos_y (node_position (nodes (getGraphData drawsZero exFriends) ! 0)) - 300\<bar> \<le> 50"
  using projection_up_to_positions [of drawsZero exFriends drawsHalf 0]
  by (simp add: ex_defs drawsZero_def)

text \<open>
  C6 as stated fails: on the one-user snapshot, two calls whose draws are all 0 and all 1/2 put
  the node at (550, 250) and at (600, 300).
\<close>

theorem random_positions_counterexample:
  "node_position (hd (nodes (getGraphData drawsZero [exAlice]))) = \<lparr>pos_x = 550, pos_y = 250\<rparr>
   \<and> node_position (hd (nodes (getGraphData drawsHalf [exAlice]))) = \<lparr>pos_x = 600, pos_y = 300\<rparr>
   \<and> getGraphData drawsZero [exAlice] \<noteq> getGraphData drawsHalf [exAlice]"
  by (simp add: getGraphData_def graphNodes_def mkNode_def Let_def enumerate_eq_zip
      drawsZero_def drawsHalf_def)

section \<open>The score formula\<close>

lemma foldl_plus_sum_list:
  "foldl (\<lambda>acc x. acc + g x) a xs = a + sum_list (map g xs)"
  for a :: "'a::monoid_add"
  by (induction xs arbitrary: a) (simp_all add: add.assoc)

lemma round2_halves: "round2 (real n + real k * 0.5) = real n + real k * 0.5"
proof -
  define m where "m = 100 * n + 50 * k"
  have e: "(real n + real k * 0.5) * 100 = real m"
    by (simp add: m_def algebra_simps)
  have "\<lfloor>real m + 1 / 2\<rfloor> = int m"
    by (simp add: floor_eq_iff)
  then have "round2 (real n + real k * 0.5) = real m / 100"
    unfolding round2_def e by simp
  then show ?thesis by (simp add: m_def)
qed

lemma real_sum_list: "real (sum_list (map f xs)) = sum_list (map (\<lambda>x. real (f x)) xs)"
  by (induction xs) simp_all

lemma set_uniq [simp]: "set (uniq xs) = set xs"
  by (simp add: uniq_def)

lemma distinct_uniq [simp]: "distinct (uniq xs)"
  by (simp add: uniq_def)

lemma length_sharedHobbies:
  "length (sharedHobbies this friend) = card (set (hobbies this) \<inter> set (hobbies friend))"
proof -
  have "distinct (sharedHobbies this friend)" by (simp add: sharedHobbies_def)
  then have "length (sharedHobbies this friend) = card (set (sharedHobbies this friend))"
    by (simp add: distinct_card)
  also have "set (sharedHobbies this friend) = set (hobbies this) \<inter> set (hobbies friend)"
    by (auto simp: sharedHobbies_def)
  finally show ?thesis .
qed

lemma hobbiesOf_stored:
  "distinct (map userId s) \<Longrightarrow> v \<in> set s \<Longrightarrow> hobbiesOf s (userId v) = hobbies v"
  by (simp add: hobbiesOf_def findOne_unique)

lemma hobbiesOf_missing: "i \<notin> userId ` set s \<Longrightarrow> hobbiesOf s i = []"
  using findOne_None [of s i] by (simp add: hobbiesOf_def)

lemma sum_found:
  assumes d: "distinct (map userId s)" and z: "g [] = (0::nat)"
  shows "sum_list (map (\<lambda>v. g (hobbies v)) (findIn s fs)) = (\<Sum>f\<in>set fs. g (hobbiesOf s f))"
proof -
  let ?A = "{v \<in> set s. userId v \<in> set fs}"
  have ds: "distinct s" and inj: "inj_on userId (set s)"
    using d by (simp_all add: distinct_map)
  have "sum_list (map (\<lambda>v. g (hobbies v)) (findIn s fs)) = (\<Sum>v\<in>?A. g (hobbies v))"
    using ds by (simp add: findIn_def sum_list_distinct_conv_sum_set)
  also have "\<dots> = (\<Sum>v\<in>?A. g (hobbiesOf s (userId v)))"
    using d by (intro sum.cong) (auto simp: hobbiesOf_stored)
  also have "\<dots> = (\<Sum>f\<in>userId ` ?A. g (hobbiesOf s f))"
    using inj by (subst sum.reindex) (auto intro: inj_on_subset)
  also have "\<dots> = (\<Sum>f\<in>set fs. g (hobbiesOf s f))"
  proof (rule sum.mono_neutral_left)
    show "\<forall>i\<in>set fs - userId ` ?A. g (hobbiesOf s i) = 0"
    proof
      fix i assume "i \<in> set fs - userId ` ?A"
      then have "i \<notin> userId ` set s" by auto
      then show "g (hobbiesOf s i) = 0" by (simp add: hobbiesOf_missing z)
    qed
  qed auto
  finally show ?thesis .
qed

lemma codeScore_spec:
  assumes "distinct (map userId s)" and "distinct (friends u)"
  shows "codeScore s u = spec_score s u"
    and "spec_score s u = real (length (friends u))
      + 0.5 * real (\<Sum>f\<in>set (friends u). card (set (hobbies u) \<inter> set (hobbiesOf s f)))"
proof -
  let ?k = "\<Sum>f\<in>set (friends u). card (set (hobbies u) \<inter> set (hobbiesOf s f))"
  have f: "foldl (\<lambda>acc friend. acc + real (length (sharedHobbies u friend)) * 0.5) 0
           (findIn s (friends u))
        = real (sum_list (map (\<lambda>v. card (set (hobbies u) \<inter> set (hobbies v))) (findIn s (friends u)))) * 0.5"
    by (simp add: foldl_plus_sum_list length_sharedHobbies sum_list_mult_const [symmetric] comp_def real_sum_list)
  have k: "sum_list (map (\<lambda>v. card (set (hobbies u) \<inter> set (hobbies v))) (findIn s (friends u))) = ?k"
    using sum_found [OF assms(1), of "\<lambda>hs. card (set (hobbies u) \<inter> set hs)" "friends u"] by simp
  have c: "codeScore s u = round2 (real (length (friends u)) + real ?k * 0.5)"
    by (simp only: codeScore_def f k)
  have sp: "spec_score s u = round2 (real (length (friends u)) + real ?k * 0.5)"
    using assms(2) by (simp add: spec_score_def distinct_card)
  show "codeScore s u = spec_score s u" using c sp by simp
  show "spec_score s u = real (length (friends u)) + 0.5 * real ?k"
    unfolding sp round2_halves by simp
qed

lemma calculatePopularityScore_value:
  "fst (calculatePopularityScore s this) = (if friends this = [] then 0 else codeScore s this)"
  by (simp add: calculatePopularityScore_def codeScore_def save_def preSave_def Let_def)

lemma spec_score_no_friends: "friends u = [] \<Longrightarrow> spec_score s u = 0"
  by (simp add: spec_score_def round2_def)

text \<open>
  C2. In a collection with unique ids, for a user whose friends list has no duplicate,
  \<^verbatim>\<open>calculatePopularityScore\<close> returns the formula of the specification: the number of friends
  plus half the number of hobbies shared with each friend, rounded to two decimals (the
  rounding changes nothing: the sum is a multiple of one half). Without a friend it
  returns 0, whatever the hobbies.
\<close>

theorem score_formula:
  assumes "distinct (map userId s)" and "distinct (friends u)"
  shows "fst (calculatePopularityScore s u) = spec_score s u
    \<and> spec_score s u = real (card (set (friends u)))
        + 0.5 * real (\<Sum>f\<in>set (friends u). card (set (hobbies u) \<inter> set (hobbiesOf s f)))
    \<and> (friends u = [] \<longrightarrow> fst (calculatePopularityScore s u) = 0)"
  using codeScore_spec [OF assms] assms(2)
  by (simp add: calculatePopularityScore_value spec_score_no_friends distinct_card)

text \<open>
  The example of the specification: alice (coding, gaming) with the friends bob (coding,
  music) and carol (gaming, sports) gets 3; without friends she gets 0.
\<close>

theorem score_formula_witness:
  "fst (calculatePopularityScore exStar (exAlice\<lparr>friends := [''u2'', ''u3''], popularityScore := 0\<rparr>)) = 3
   \<and> fst (calculatePopularityScore exStar exAlice) = 0"
  using score_formula [of exStar "exAlice\<lparr>friends := [''u2'', ''u3''], popularityScore := 0\<rparr>"]
    score_formula [of exStar exAlice]
  by (simp add: ex_defs hobbiesOf_def findOne_def)

lemma exStar_reached: "snd (addFriendship exFriends ''u1'' ''u3'') = exStar"
  by (simp add: ex_defs op_defs)

section \<open>Counting friendships\<close>

lemma wf_store_iff:
  "wf_store s \<longleftrightarrow>
     distinct (map userId s)
     \<and> (\<forall>u\<in>set s. distinct (friends u) \<and> userId u \<notin> set (friends u)
           \<and> set (friends u) \<subseteq> userId ` set s)"
  by (auto simp: wf_store_def list_all_iff)

lemma symmetric_iff:
  "symmetric s \<longleftrightarrow>
     (\<forall>a\<in>set s. \<forall>b\<in>set s. userId b \<in> set (friends a) \<longleftrightarrow> userId a \<in> set (friends b))"
  by (simp add: symmetric_def list_all_iff)

lemma friendLinks_Cons:
  "friendLinks (u # s) = map (\<lambda>f. (userId u, f)) (friends u) @ friendLinks s"
  by (simp add: friendLinks_def)

lemma set_friendLinks:
  "set (friendLinks s) = {(a, b). \<exists>u\<in>set s. userId u = a \<and> b \<in> set (friends u)}"
  by (auto simp: friendLinks_def)

lemma length_friendLinks:
  "length (friendLinks s) = sum_list (map (\<lambda>u. length (friends u)) s)"
  by (induction s) (simp_all add: friendLinks_Cons, simp add: friendLinks_def)

lemma distinct_friendLinks:
  "distinct (map userId s) \<Longrightarrow> \<forall>u\<in>set s. distinct (friends u) \<Longrightarrow> distinct (friendLinks s)"
proof (induction s)
  case Nil
  show ?case by (simp add: friendLinks_def)
next
  case (Cons u s)
  have "distinct (map (\<lambda>f. (userId u, f)) (friends u))"
    using Cons.prems(2) by (simp add: distinct_map inj_on_def)
  moreover have "distinct (friendLinks s)"
    using Cons by simp
  moreover have "set (map (\<lambda>f. (userId u, f)) (friends u)) \<inter> set (friendLinks s) = {}"
  proof -
    have "\<forall>v\<in>set s. userId v \<noteq> userId u" using Cons.prems(1) by (auto simp: image_iff)
    then have "(userId u, b) \<notin> set (friendLinks s)" for b
      by (auto simp: set_friendLinks)
    then show ?thesis by auto
  qed
  ultimately show ?case by (simp add: friendLinks_Cons)
qed

text \<open>A finite symmetric irreflexive relation has twice as many pairs as unordered pairs.\<close>

lemma card_unordered_pairs:
  fixes P :: "('a::linorder \<times> 'a) set"
  assumes fin: "finite P"
    and sym: "\<And>a b. (a, b) \<in> P \<Longrightarrow> (b, a) \<in> P"
    and irr: "\<And>a. (a, a) \<notin> P"
  shows "card P = 2 * card ((\<lambda>(a, b). {a, b}) ` P)"
proof -
  let ?up = "\<lambda>(a, b). {a, b}"
  let ?lo = "{(a, b). (a, b) \<in> P \<and> a < b}"
  let ?hi = "{(a, b). (a, b) \<in> P \<and> b < a}"
  have ne: "a \<noteq> b" if "(a, b) \<in> P" for a b
    using that irr by auto
  have "a < b \<or> b < a" if "(a, b) \<in> P" for a b
    using ne [OF that] by (simp add: neq_iff)
  then have split: "P = ?lo \<union> ?hi" "?lo \<inter> ?hi = {}"
    by auto
  have flo: "finite ?lo" and fhi: "finite ?hi"
    using fin by (auto intro: finite_subset [of _ P])
  have "?hi = prod.swap ` ?lo"
    using sym by (auto simp: image_iff)
  then have hi: "card ?hi = card ?lo"
    by (simp add: card_image)
  have "inj_on ?up ?lo"
    by (auto simp: inj_on_def doubleton_eq_iff)
  then have lo: "card (?up ` ?lo) = card ?lo"
    by (rule card_image)
  have "?up ` P = ?up ` ?lo"
  proof
    show "?up ` P \<subseteq> ?up ` ?lo"
    proof
      fix e assume "e \<in> ?up ` P"
      then obtain a b where ab: "(a, b) \<in> P" "e = {a, b}" by auto
      then have "a \<noteq> b" using irr by auto
      then consider "a < b" | "b < a" by (auto simp: neq_iff)
      then show "e \<in> ?up ` ?lo"
      proof cases
        case 1
        then show ?thesis using ab by (auto simp: image_iff)
      next
        case 2
        then have "(b, a) \<in> ?lo" using ab sym by auto
        moreover have "e = ?up (b, a)" using ab by auto
        ultimately show ?thesis by blast
      qed
    qed
  qed auto
  then have "card (?up ` P) = card ?lo" using lo by simp
  moreover have "card P = card ?lo + card ?hi"
    using card_Un_disjoint [OF flo fhi split(2)] split(1) by simp
  ultimately show ?thesis using hi by simp
qed

lemma handshake:
  assumes "wf_store s" and "symmetric s"
  shows "sum_list (map (\<lambda>u. length (friends u)) s) = 2 * card (friendPairs s)"
proof -
  from assms(1) have d: "distinct (map userId s)"
    and w: "\<forall>u\<in>set s. distinct (friends u) \<and> userId u \<notin> set (friends u)
           \<and> set (friends u) \<subseteq> userId ` set s"
    by (simp_all add: wf_store_iff)
  let ?P = "set (friendLinks s)"
  have "sum_list (map (\<lambda>u. length (friends u)) s) = card ?P"
    using distinct_friendLinks [OF d] w by (simp add: length_friendLinks [symmetric] distinct_card)
  also have "card ?P = 2 * card ((\<lambda>(a, b). {a, b}) ` ?P)"
  proof (rule card_unordered_pairs)
    show "finite ?P" by simp
  next
    fix a b assume "(a, b) \<in> ?P"
    then obtain u where u: "u \<in> set s" "userId u = a" "b \<in> set (friends u)"
      by (auto simp: set_friendLinks)
    then obtain v where v: "v \<in> set s" "userId v = b" using w by auto
    then have "userId u \<in> set (friends v)"
      using assms(2) u by (auto simp: symmetric_iff)
    then show "(b, a) \<in> ?P" using u v by (auto simp: set_friendLinks)
  next
    fix a show "(a, a) \<notin> ?P" using w by (auto simp: set_friendLinks)
  qed
  finally show ?thesis by (simp add: friendPairs_def)
qed

text \<open>
  C10. In a collection that satisfies the data model (unique ids; every friends list a
  duplicate-free list of ids of other users of the collection) and whose friendship
  relation is symmetric, \<^verbatim>\<open>getUserStats\<close> returns as \<^verbatim>\<open>totalFriendships\<close> the sum of the lengths
  of the friends lists divided by 2, and this is the number of unordered friend pairs, an
  integer.
\<close>

theorem total_friendships:
  assumes "wf_store s" and "symmetric s"
  shows "totalFriendships (getUserStats roundedAverage s)
        = real (sum_list (map (\<lambda>u. length (friends u)) s)) / 2
    \<and> totalFriendships (getUserStats roundedAverage s) = real (card (friendPairs s))"
  using handshake [OF assms]
  by (simp add: getUserStats_def Let_def foldl_plus_sum_list)

theorem total_friendships_witness:
  "wf_store exStar \<and> symmetric exStar \<and> card (friendPairs exStar) = 2
   \<and> totalFriendships (getUserStats sum_list exStar) = 2"
proof -
  have h: "wf_store exStar" "symmetric exStar"
    by (simp_all add: wf_store_def symmetric_def ex_defs)
  have c: "card (friendPairs exStar) = 2"
    by code_simp
  have "totalFriendships (getUserStats sum_list exStar) = real (card (friendPairs exStar))"
    using total_friendships [OF h] by (rule conjunct2)
  then have "totalFriendships (getUserStats sum_list exStar) = 2"
    unfolding c by simp
  with h c show ?thesis by (intro conjI)
qed

section \<open>Nodes and edges of the projection\<close>

lemma friendsLoop_result:
  "finite seen \<Longrightarrow>
   snd (friendsLoop a fs (es, seen)) = seen \<union> pairKey a ` set fs
   \<and> length (fst (friendsLoop a fs (es, seen))) = length es + card (pairKey a ` set fs - seen)"
proof (induction fs arbitrary: es seen)
  case Nil
  show ?case by simp
next
  case (Cons f rest)
  let ?k = "pairKey a f" and ?K = "pairKey a ` set rest"
  show ?case
  proof (cases "?k \<in> seen")
    case True
    then have "insert ?k ?K - seen = ?K - seen" by auto
    with True Cons.IH [OF Cons.prems, of es] show ?thesis by auto
  next
    case False
    have fin: "finite (?K - insert ?k seen)" by simp
    have "insert ?k ?K - seen = insert ?k (?K - insert ?k seen)"
      using False by auto
    then have "card (insert ?k ?K - seen) = Suc (card (?K - insert ?k seen))"
      using fin by simp
    moreover have "finite (insert ?k seen)" using Cons.prems by simp
    ultimately show ?thesis
      using False Cons.IH [of "insert ?k seen" "es @ [mkEdge a f]"] by auto
  qed
qed

lemma pairKeys_Cons: "pairKeys (u # s) = pairKey (userId u) ` set (friends u) \<union> pairKeys s"
  by (auto simp: pairKeys_def friendLinks_Cons image_Un image_image)

lemma usersLoop_result:
  "finite seen \<Longrightarrow>
   snd (usersLoop s (es, seen)) = seen \<union> pairKeys s
   \<and> length (fst (usersLoop s (es, seen))) = length es + card (pairKeys s - seen)"
proof (induction s arbitrary: es seen)
  case Nil
  show ?case by (simp add: pairKeys_def friendLinks_def)
next
  case (Cons u s)
  let ?Ku = "pairKey (userId u) ` set (friends u)"
  obtain es1 seen1 where l: "friendsLoop (userId u) (friends u) (es, seen) = (es1, seen1)"
    by (cases "friendsLoop (userId u) (friends u) (es, seen)")
  from friendsLoop_result [OF Cons.prems, of "userId u" "friends u" es] l
  have s1: "seen1 = seen \<union> ?Ku" and e1: "length es1 = length es + card (?Ku - seen)"
    by simp_all
  have f1: "finite seen1" using s1 Cons.prems by simp
  have fK: "finite (pairKeys s)" by (simp add: pairKeys_def)
  have "pairKeys (u # s) - seen = (?Ku - seen) \<union> (pairKeys s - seen1)"
    using s1 by (auto simp: pairKeys_Cons)
  moreover have "(?Ku - seen) \<inter> (pairKeys s - seen1) = {}"
    using s1 by auto
  ultimately have "card (pairKeys (u # s) - seen) = card (?Ku - seen) + card (pairKeys s - seen1)"
    using fK by (simp add: card_Un_disjoint)
  then show ?case
    using Cons.IH [OF f1, of es1] l s1 e1 by (auto simp: pairKeys_Cons)
qed

lemma length_graphEdges: "length (graphEdges s) = card (pairKeys s)"
  using usersLoop_result [of "{}" s "[]"] by (simp add: graphEdges_def)

lemma card_image_cong:
  "finite A \<Longrightarrow> (\<And>x y. x \<in> A \<Longrightarrow> y \<in> A \<Longrightarrow> (f x = f y) = (g x = g y)) \<Longrightarrow>
   card (f ` A) = card (g ` A)"
proof (induction A rule: finite_induct)
  case empty
  show ?case by simp
next
  case (insert a A)
  have "(f a \<in> f ` A) = (g a \<in> g ` A)"
    using insert.prems [of a] insert.prems [of _ a] by (auto simp: image_iff)
  moreover have "card (f ` A) = card (g ` A)"
    using insert by simp
  ultimately show ?case using insert.hyps by (simp add: card_insert_if)
qed

lemma pairKey_eq_iff:
  assumes "length a = n" "length b = n" "length c = n" "length d = n"
  shows "(pairKey a b = pairKey c d) = ({a, b} = {c, d})"
  using assms by (auto simp: pairKey_def doubleton_eq_iff)

lemma uniformIds_links:
  "uniformIds n s \<Longrightarrow> (a, b) \<in> set (friendLinks s) \<Longrightarrow> length a = n \<and> length b = n"
  by (auto simp: uniformIds_def list_all_iff set_friendLinks)

lemma card_pairKeys:
  assumes "uniformIds n s"
  shows "card (pairKeys s) = card (friendPairs s)"
  unfolding pairKeys_def friendPairs_def
proof (rule card_image_cong)
  show "finite (set (friendLinks s))" by simp
next
  fix x y assume xy: "x \<in> set (friendLinks s)" "y \<in> set (friendLinks s)"
  obtain a b c d where eq: "x = (a, b)" "y = (c, d)"
    by (cases x, cases y) auto
  have "length a = n" "length b = n" "length c = n" "length d = n"
    using uniformIds_links [OF assms] xy unfolding eq by blast+
  then have "(pairKey a b = pairKey c d) = ({a, b} = {c, d})"
    by (rule pairKey_eq_iff)
  then show "((case x of (a, b) \<Rightarrow> pairKey a b) = (case y of (a, b) \<Rightarrow> pairKey a b))
      = ((case x of (a, b) \<Rightarrow> {a, b}) = (case y of (a, b) \<Rightarrow> {a, b}))"
    unfolding eq by simp
qed

lemma node_id_mkNode: "node_id (mkNode rnd len i u) = userId u"
  by (simp add: mkNode_def Let_def)

text \<open>
  C5 (as the code has it). When all ids of the snapshot have one length, as the UUIDs that
  the collection assigns have, \<^verbatim>\<open>getGraphData\<close> returns one node per user, in order, and as
  many edges as there are unordered friend pairs: the sorted pair key collapses (a, b) and
  (b, a). This needs no symmetry of the relation.
\<close>

theorem projection_counts:
  assumes "uniformIds n s"
  shows "length (nodes (getGraphData rnd s)) = length s
    \<and> map node_id (nodes (getGraphData rnd s)) = map userId s
    \<and> length (edges (getGraphData rnd s)) = card (friendPairs s)"
proof -
  have len: "length (graphNodes rnd s) = length s"
    by (simp add: graphNodes_def)
  then have "map node_id (graphNodes rnd s) = map userId s"
    by (simp add: list_eq_iff_nth_eq graphNodes_nth node_id_mkNode)
  then show ?thesis
    using card_pairKeys [OF assms] len
    by (simp add: getGraphData_def length_graphEdges)
qed

theorem projection_counts_witness:
  "uniformIds 2 exStar \<and> symmetric exStar \<and> card (friendPairs exStar) = 2
   \<and> length (nodes (getGraphData drawsZero exStar)) = 3
   \<and> length (edges (getGraphData drawsZero exStar)) = 2"
proof -
  have u: "uniformIds 2 exStar"
    by (simp add: uniformIds_def ex_defs)
  have s: "symmetric exStar"
    by (simp add: symmetric_def ex_defs)
  have c: "card (friendPairs exStar) = 2"
    by code_simp
  have l: "length exStar = 3" by (simp add: ex_defs)
  from projection_counts [OF u, of drawsZero]
  have "length (nodes (getGraphData drawsZero exStar)) = 3"
    and "length (edges (getGraphData drawsZero exStar)) = 2"
    unfolding c l by simp_all
  with u s c show ?thesis by (intro conjI)
qed

text \<open>
  C5 as stated fails for ids that contain the separator of the pair key: the friendships
  between \<open>a-b\<close> and \<open>c\<close> and between \<open>a\<close> and \<open>b-c\<close> both get the key \<open>a-b-c\<close>, and the
  symmetric four-user snapshot with these two friend pairs yields one edge.
\<close>

theorem hyphen_ids_counterexample:
  "symmetric exHyphen \<and> wf_store exHyphen \<and> card (friendPairs exHyphen) = 2
   \<and> length (nodes (getGraphData drawsZero exHyphen)) = 4
   \<and> length (edges (getGraphData drawsZero exHyphen)) = 1"
proof -
  have "symmetric exHyphen" "wf_store exHyphen"
    by (simp_all add: symmetric_def wf_store_def exHyphen_def ex_defs)
  moreover have "card (friendPairs exHyphen) = 2"
    by code_simp
  moreover have "length (nodes (getGraphData drawsZero exHyphen)) = 4"
    by (simp add: getGraphData_def graphNodes_def exHyphen_def)
  moreover have "length (edges (getGraphData drawsZero exHyphen)) = 1"
    by (simp add: getGraphData_def graphEdges_def exHyphen_def ex_defs pairKey_def)
  ultimately show ?thesis by (intro conjI)
qed

section \<open>Writes, lookups and the two-sided update\<close>

subsection \<open>Lookups after a write\<close>

lemma userId_replaceDoc [simp]: "map userId (replaceDoc s d) = map userId s"
  by (induction s) (simp_all add: replaceDoc_def)

lemma findOne_replaceDoc:
  "findOne (replaceDoc s d) i =
     (if i = userId d \<and> findOne s i \<noteq> None then Some d else findOne s i)"
  by (induction s) (auto simp: replaceDoc_def findOne_def)

lemma findOne_append:
  "findOne (s @ [d]) i =
     (case findOne s i of Some u \<Rightarrow> Some u | None \<Rightarrow> if userId d = i then Some d else None)"
  by (induction s) (auto simp: findOne_def)

lemma findOne_remove1_other:
  "distinct (map userId s) \<Longrightarrow> findOne s a = Some u \<Longrightarrow>
   findOne (remove1 u s) i = (if i = a then None else findOne s i)"
proof (induction s)
  case Nil
  then show ?case by (simp add: findOne_def)
next
  case (Cons v s)
  show ?case
  proof (cases "v = u")
    case True
    then have "userId v = a" using Cons.prems(2) by (auto dest: findOne_Some)
    moreover have "findOne s a = None"
      using Cons.prems(1) \<open>userId v = a\<close> by (simp add: findOne_None)
    ultimately show ?thesis using True by (auto simp: findOne_def)
  next
    case False
    then have "findOne s a = Some u" "userId v \<noteq> a"
      using Cons.prems by (auto simp: findOne_def split: if_splits)
    then show ?thesis using False Cons by (auto simp: findOne_def)
  qed
qed

lemma findOne_member:
  "distinct (map userId s) \<Longrightarrow> (u \<in> set s) = (findOne s (userId u) = Some u)"
  using findOne_unique findOne_Some by blast

subsection \<open>The save hook\<close>

lemma distinct_uniq_id: "distinct xs \<Longrightarrow> uniq xs = xs"
  by (simp add: uniq_def distinct_remdups_id)

lemma preSave_simps [simp]:
  "userId (preSave d) = userId d"
  "friends (preSave d) = friends d"
  "username (preSave d) = username d"
  "age (preSave d) = age d"
  "popularityScore (preSave d) = popularityScore d"
  "preSave (d\<lparr>popularityScore := r\<rparr>) = (preSave d)\<lparr>popularityScore := r\<rparr>"
  "preSave (d\<lparr>friends := fs\<rparr>) = (preSave d)\<lparr>friends := fs\<rparr>"
  by (simp_all add: preSave_def)

lemma preSave_idem [simp]: "preSave (preSave d) = preSave d"
proof -
  let ?hs = "uniq (filter (\<lambda>hobby. trim hobby \<noteq> []) (hobbies d))"
  have "filter (\<lambda>hobby. trim hobby \<noteq> []) ?hs = ?hs"
    by (rule filter_True) simp
  then show ?thesis by (simp add: preSave_def distinct_uniq_id)
qed

lemma save_eq: "save s d = (preSave d, replaceDoc s (preSave d))"
  by (simp add: save_def Let_def)

lemma calculatePopularityScore_eq:
  "calculatePopularityScore s this =
     (if friends this = [] then (0, this, s)
      else (codeScore s this, (preSave this)\<lparr>popularityScore := codeScore s this\<rparr>,
            replaceDoc s ((preSave this)\<lparr>popularityScore := codeScore s this\<rparr>)))"
  by (simp add: calculatePopularityScore_def codeScore_def save_eq Let_def)

lemma addFriend_twoSided:
  "addFriend s this b =
     (if b \<in> set (friends this) then (Inl AlreadyFriends, s)
      else if b = userId this then (Inl SelfFriend, s)
      else case findOne s b of
        None \<Rightarrow> (Inl FriendNotFound, s)
      | Some friend \<Rightarrow>
          (Inr (), twoSided s (this\<lparr>friends := friends this @ [b]\<rparr>)
                     (friend\<lparr>friends := friends friend @ [userId this]\<rparr>)))"
  by (simp add: addFriend_def twoSided_def Let_def split: option.splits prod.splits)

lemma removeFriend_twoSided:
  "removeFriend s this b =
     (if b \<notin> set (friends this) then (Inl NotFriends, s)
      else case findOne s b of
        None \<Rightarrow> (Inl FriendNotFound, s)
      | Some friend \<Rightarrow>
          (Inr (), twoSided s (this\<lparr>friends := filter (\<lambda>i. i \<noteq> b) (friends this)\<rparr>)
                     (friend\<lparr>friends := filter (\<lambda>i. i \<noteq> userId this) (friends friend)\<rparr>)))"
  by (simp add: removeFriend_def twoSided_def Let_def split: option.splits prod.splits)

lemma hobbiesOf_replaceDoc:
  "hobbiesOf (replaceDoc s d) i =
     (if i = userId d \<and> findOne s i \<noteq> None then hobbies d else hobbiesOf s i)"
  by (auto simp: hobbiesOf_def findOne_replaceDoc)

lemma replaceDoc_stored:
  assumes "distinct (map userId s)" and "findOne s (userId x) = Some x"
  shows "replaceDoc s x = s"
proof -
  have "v = x" if "v \<in> set s" "userId v = userId x" for v
    using findOne_unique [OF assms(1) that(1)] that(2) assms(2) by simp
  then show ?thesis
    unfolding replaceDoc_def by (intro map_idI) auto
qed

lemma spec_score_cong:
  "friends u' = friends u \<Longrightarrow> hobbies u' = hobbies u \<Longrightarrow>
   (\<And>f. f \<in> set (friends u) \<Longrightarrow> hobbiesOf s' f = hobbiesOf s f) \<Longrightarrow>
   spec_score s' u' = spec_score s u"
  by (simp add: spec_score_def)

text \<open>
  Recomputing the score of a stored, saved document that has a friend: its stored score
  becomes the formula, on the collection before and after, and nothing else changes.
\<close>

lemma recompute_stored:
  assumes d: "distinct (map userId s)"
    and st: "findOne s (userId x) = Some x"
    and sv: "preSave x = x"
  shows "\<exists>x'. snd (snd (calculatePopularityScore s x)) = replaceDoc s x'
      \<and> fst (snd (calculatePopularityScore s x)) = x'
      \<and> userId x' = userId x \<and> friends x' = friends x \<and> hobbies x' = hobbies x
      \<and> username x' = username x \<and> age x' = age x \<and> preSave x' = x'
      \<and> (\<forall>i. hobbiesOf (replaceDoc s x') i = hobbiesOf s i)
      \<and> (friends x = [] \<longrightarrow> x' = x)
      \<and> (friends x \<noteq> [] \<longrightarrow> distinct (friends x) \<longrightarrow>
            popularityScore x' = spec_score (replaceDoc s x') x')"
proof (cases "friends x = []")
  case True
  have "replaceDoc s x = s"
    using d st by (rule replaceDoc_stored)
  then show ?thesis
    using True sv by (intro exI [of _ x]) (simp add: calculatePopularityScore_eq)
next
  case False
  let ?x' = "x\<lparr>popularityScore := codeScore s x\<rparr>"
  have h: "hobbiesOf (replaceDoc s ?x') i = hobbiesOf s i" for i
  proof (cases "i = userId x")
    case True
    have "hobbiesOf s (userId x) = hobbies x" using st by (simp add: hobbiesOf_def)
    then show ?thesis using True st by (simp add: hobbiesOf_replaceDoc)
  next
    case False
    then show ?thesis by (simp add: hobbiesOf_replaceDoc)
  qed
  have sc: "spec_score (replaceDoc s ?x') ?x' = spec_score s x"
    by (rule spec_score_cong) (simp_all add: h)
  have "popularityScore ?x' = spec_score (replaceDoc s ?x') ?x'" if "distinct (friends x)"
  proof -
    have "popularityScore ?x' = codeScore s x" by simp
    also have "\<dots> = spec_score s x" using d that by (rule codeScore_spec(1))
    finally show ?thesis unfolding sc .
  qed
  then show ?thesis
    using False sv h by (intro exI [of _ ?x']) (simp add: calculatePopularityScore_eq)
qed

lemma twoSided_eq:
  "twoSided s x y =
     snd (snd (calculatePopularityScore
       (snd (snd (calculatePopularityScore (replaceDoc (replaceDoc s (preSave x)) (preSave y))
          (preSave x))))
       (preSave y)))"
  by (simp add: twoSided_def save_eq case_prod_beta)

lemma twoSided_props:
  assumes d: "distinct (map userId s)"
    and x: "findOne s (userId x) \<noteq> None" and y: "findOne s (userId y) \<noteq> None"
    and ne: "userId x \<noteq> userId y"
  shows "\<exists>x' y'. map userId (twoSided s x y) = map userId s
     \<and> (\<forall>i. findOne (twoSided s x y) i =
           (if i = userId x then Some x' else if i = userId y then Some y' else findOne s i))
     \<and> userId x' = userId x \<and> friends x' = friends x \<and> hobbies x' = hobbies (preSave x)
     \<and> userId y' = userId y \<and> friends y' = friends y \<and> hobbies y' = hobbies (preSave y)
     \<and> (friends x \<noteq> [] \<longrightarrow> distinct (friends x) \<longrightarrow>
           popularityScore x' = spec_score (twoSided s x y) x')
     \<and> (friends y \<noteq> [] \<longrightarrow> distinct (friends y) \<longrightarrow>
           popularityScore y' = spec_score (twoSided s x y) y')
     \<and> (friends x = [] \<longrightarrow> popularityScore x' = popularityScore x)
     \<and> (friends y = [] \<longrightarrow> popularityScore y' = popularityScore y)"
proof -
  let ?x2 = "preSave x" and ?y2 = "preSave y"
  let ?s2 = "replaceDoc (replaceDoc s ?x2) ?y2"
  have d2: "distinct (map userId ?s2)" using d by simp
  have fx2: "findOne ?s2 (userId ?x2) = Some ?x2"
    using x ne by (simp add: findOne_replaceDoc)
  have fy2: "findOne ?s2 (userId ?y2) = Some ?y2"
    using y ne by (simp add: findOne_replaceDoc)
  from recompute_stored [OF d2 fx2] obtain x3 where
    s3: "snd (snd (calculatePopularityScore ?s2 ?x2)) = replaceDoc ?s2 x3"
    and x3: "userId x3 = userId x" "friends x3 = friends x" "hobbies x3 = hobbies ?x2"
    and h3: "\<forall>i. hobbiesOf (replaceDoc ?s2 x3) i = hobbiesOf ?s2 i"
    and e3: "friends x = [] \<longrightarrow> x3 = ?x2"
    and p3: "friends x \<noteq> [] \<longrightarrow> distinct (friends x) \<longrightarrow>
              popularityScore x3 = spec_score (replaceDoc ?s2 x3) x3"
    by auto
  let ?s3 = "replaceDoc ?s2 x3"
  have d3: "distinct (map userId ?s3)" using d by simp
  have fy3: "findOne ?s3 (userId ?y2) = Some ?y2"
    using fy2 ne x3 by (simp add: findOne_replaceDoc)
  from recompute_stored [OF d3 fy3] obtain y3 where
    s4: "snd (snd (calculatePopularityScore ?s3 ?y2)) = replaceDoc ?s3 y3"
    and y3: "userId y3 = userId y" "friends y3 = friends y" "hobbies y3 = hobbies ?y2"
    and h4: "\<forall>i. hobbiesOf (replaceDoc ?s3 y3) i = hobbiesOf ?s3 i"
    and e4: "friends y = [] \<longrightarrow> y3 = ?y2"
    and p4: "friends y \<noteq> [] \<longrightarrow> distinct (friends y) \<longrightarrow>
              popularityScore y3 = spec_score (replaceDoc ?s3 y3) y3"
    by auto
  let ?s4 = "replaceDoc ?s3 y3"
  have t: "twoSided s x y = ?s4"
    by (simp only: twoSided_eq s3 s4)
  have ids: "map userId ?s4 = map userId s" by simp
  have look: "findOne ?s4 i =
      (if i = userId x then Some x3 else if i = userId y then Some y3 else findOne s i)" for i
    using x y ne x3 y3 by (auto simp: findOne_replaceDoc)
  have "spec_score ?s4 x3 = spec_score ?s3 x3"
    by (rule spec_score_cong) (simp_all add: h4)
  with p3 have px: "friends x \<noteq> [] \<longrightarrow> distinct (friends x) \<longrightarrow>
      popularityScore x3 = spec_score ?s4 x3" by simp
  show ?thesis
    unfolding t
    using ids look x3 y3 px p4 e3 e4
    by (intro exI [of _ x3] exI [of _ y3]) auto
qed

subsection \<open>The invariants through lookups\<close>

lemma wf_store_lookup:
  assumes d: "distinct (map userId s)"
  shows "wf_store s =
     (\<forall>i u. findOne s i = Some u \<longrightarrow>
        distinct (friends u) \<and> i \<notin> set (friends u)
        \<and> (\<forall>f\<in>set (friends u). findOne s f \<noteq> None))"
proof
  assume w: "wf_store s"
  show "\<forall>i u. findOne s i = Some u \<longrightarrow>
        distinct (friends u) \<and> i \<notin> set (friends u)
        \<and> (\<forall>f\<in>set (friends u). findOne s f \<noteq> None)"
  proof (intro allI impI)
    fix i u assume "findOne s i = Some u"
    then have u: "u \<in> set s" "userId u = i" by (auto dest: findOne_Some)
    with w have "distinct (friends u)" "userId u \<notin> set (friends u)"
      "set (friends u) \<subseteq> userId ` set s"
      unfolding wf_store_iff by blast+
    then show "distinct (friends u) \<and> i \<notin> set (friends u)
        \<and> (\<forall>f\<in>set (friends u). findOne s f \<noteq> None)"
      using u(2) by (auto simp: findOne_None)
  qed
next
  assume r: "\<forall>i u. findOne s i = Some u \<longrightarrow>
        distinct (friends u) \<and> i \<notin> set (friends u)
        \<and> (\<forall>f\<in>set (friends u). findOne s f \<noteq> None)"
  have "distinct (friends u) \<and> userId u \<notin> set (friends u)
      \<and> set (friends u) \<subseteq> userId ` set s" if "u \<in> set s" for u
  proof -
    have "findOne s (userId u) = Some u" using d that by (rule findOne_unique)
    with r have "distinct (friends u)" "userId u \<notin> set (friends u)"
      "\<forall>f\<in>set (friends u). findOne s f \<noteq> None" by blast+
    then show ?thesis by (auto simp: findOne_None)
  qed
  then show "wf_store s" unfolding wf_store_iff using d by blast
qed

lemma symmetric_lookup:
  assumes d: "distinct (map userId s)"
  shows "symmetric s =
     (\<forall>i j u v. findOne s i = Some u \<longrightarrow> findOne s j = Some v \<longrightarrow>
        (j \<in> set (friends u)) = (i \<in> set (friends v)))"
proof
  assume sy: "symmetric s"
  show "\<forall>i j u v. findOne s i = Some u \<longrightarrow> findOne s j = Some v \<longrightarrow>
        (j \<in> set (friends u)) = (i \<in> set (friends v))"
  proof (intro allI impI)
    fix i j u v assume "findOne s i = Some u" "findOne s j = Some v"
    then have "u \<in> set s" "userId u = i" "v \<in> set s" "userId v = j"
      by (auto dest: findOne_Some)
    with sy show "(j \<in> set (friends u)) = (i \<in> set (friends v))"
      unfolding symmetric_iff by blast
  qed
next
  assume r: "\<forall>i j u v. findOne s i = Some u \<longrightarrow> findOne s j = Some v \<longrightarrow>
        (j \<in> set (friends u)) = (i \<in> set (friends v))"
  show "symmetric s"
    unfolding symmetric_iff
  proof (intro ballI)
    fix a b assume "a \<in> set s" "b \<in> set s"
    then have "findOne s (userId a) = Some a" "findOne s (userId b) = Some b"
      using d by (simp_all add: findOne_unique)
    with r show "(userId b \<in> set (friends a)) = (userId a \<in> set (friends b))"
      by blast
  qed
qed

lemma twoSided_invariant:
  assumes wf: "wf_store s" and sym: "symmetric s"
    and fa: "findOne s a = Some this" and fb: "findOne s b = Some friend" and ne: "a \<noteq> b"
    and X: "userId x = a" "userId y = b"
    and F: "(set (friends x) = insert b (set (friends this))
              \<and> set (friends y) = insert a (set (friends friend)))
            \<or> (set (friends x) = set (friends this) - {b}
              \<and> set (friends y) = set (friends friend) - {a})"
    and D: "distinct (friends x)" "distinct (friends y)"
  shows "wf_store (twoSided s x y) \<and> symmetric (twoSided s x y)"
proof -
  let ?s' = "twoSided s x y"
  have d: "distinct (map userId s)" using wf by (simp add: wf_store_iff)
  note W = wf [unfolded wf_store_lookup [OF d], rule_format]
  note S = sym [unfolded symmetric_lookup [OF d], rule_format]
  have nx: "findOne s (userId x) \<noteq> None" and ny: "findOne s (userId y) \<noteq> None"
    and nxy: "userId x \<noteq> userId y"
    using fa fb ne X by simp_all
  from twoSided_props [OF d nx ny nxy] obtain x' y' where
    ids: "map userId ?s' = map userId s"
    and look: "\<And>i. findOne ?s' i =
           (if i = a then Some x' else if i = b then Some y' else findOne s i)"
    and fx: "friends x' = friends x" and fy: "friends y' = friends y"
    unfolding X by blast
  have d': "distinct (map userId ?s')" using d ids by simp
  have keep: "findOne ?s' f \<noteq> None" if "findOne s f \<noteq> None" for f
    using that by (simp add: look)
  have Wa: "a \<notin> set (friends this)" "\<forall>f\<in>set (friends this). findOne s f \<noteq> None"
    using W [OF fa] by auto
  have Wb: "b \<notin> set (friends friend)" "\<forall>f\<in>set (friends friend). findOne s f \<noteq> None"
    using W [OF fb] by auto
  have K1: "(j \<in> set (friends x)) = (j \<in> set (friends this))" if "j \<noteq> b" for j
    using F that by auto
  have K2: "(j \<in> set (friends y)) = (j \<in> set (friends friend))" if "j \<noteq> a" for j
    using F that by auto
  have K3: "(b \<in> set (friends x)) = (a \<in> set (friends y))"
    using F by auto
  have cx: "\<forall>f\<in>set (friends x). findOne s f \<noteq> None"
  proof
    fix f assume "f \<in> set (friends x)"
    then have "f = b \<or> f \<in> set (friends this)" using F by auto
    then show "findOne s f \<noteq> None" using fb Wa(2) by auto
  qed
  have cy: "\<forall>f\<in>set (friends y). findOne s f \<noteq> None"
  proof
    fix f assume "f \<in> set (friends y)"
    then have "f = a \<or> f \<in> set (friends friend)" using F by auto
    then show "findOne s f \<noteq> None" using fa Wb(2) by auto
  qed
  have ax: "a \<notin> set (friends x)" using K1 [of a] ne Wa(1) by simp
  have by': "b \<notin> set (friends y)" using K2 [of b] ne Wb(1) by simp
  have wf': "wf_store ?s'"
    unfolding wf_store_lookup [OF d']
  proof (intro allI impI)
    fix i u assume f: "findOne ?s' i = Some u"
    consider "i = a" | "i \<noteq> a" "i = b" | "i \<noteq> a" "i \<noteq> b" by blast
    then show "distinct (friends u) \<and> i \<notin> set (friends u)
        \<and> (\<forall>f\<in>set (friends u). findOne ?s' f \<noteq> None)"
    proof cases
      case 1
      then have "friends u = friends x" using f fx by (simp add: look)
      then show ?thesis using 1 D(1) ax cx keep by simp
    next
      case 2
      then have "friends u = friends y" using f fy by (simp add: look)
      then show ?thesis using 2 D(2) by' cy keep by simp
    next
      case 3
      then have "findOne s i = Some u" using f by (simp add: look)
      from W [OF this] show ?thesis using keep by simp
    qed
  qed
  have rel: "(j \<in> set (friends u)) = (i \<in> set (friends v))"
    if fi: "findOne ?s' i = Some u" and fj: "findOne ?s' j = Some v" and ia: "i = a" for i j u v
  proof -
    have u: "friends u = friends x" using fi ia fx by (simp add: look)
    consider "j = a" | "j = b" | "j \<noteq> a" "j \<noteq> b" by blast
    then show ?thesis
    proof cases
      case 1
      then have "v = u" using fi fj ia by simp
      then show ?thesis using 1 ia by simp
    next
      case 2
      then have "friends v = friends y" using fj fy ne by (simp add: look)
      then show ?thesis using u 2 ia K3 by simp
    next
      case 3
      then have "findOne s j = Some v" using fj by (simp add: look)
      from S [OF fa this] show ?thesis using u 3 ia K1 [of j] by simp
    qed
  qed
  have rel2: "(j \<in> set (friends u)) = (i \<in> set (friends v))"
    if fi: "findOne ?s' i = Some u" and fj: "findOne ?s' j = Some v" and ib: "i = b" for i j u v
  proof -
    have u: "friends u = friends y" using fi ib fy ne by (simp add: look)
    consider "j = a" | "j = b" | "j \<noteq> a" "j \<noteq> b" by blast
    then show ?thesis
    proof cases
      case 1
      from rel [OF fj fi 1] show ?thesis by simp
    next
      case 2
      then have "v = u" using fi fj ib by simp
      then show ?thesis using 2 ib by simp
    next
      case 3
      then have "findOne s j = Some v" using fj by (simp add: look)
      from S [OF fb this] show ?thesis using u 3 ib K2 [of j] by simp
    qed
  qed
  have sym': "symmetric ?s'"
    unfolding symmetric_lookup [OF d']
  proof (intro allI impI)
    fix i j u v assume fi: "findOne ?s' i = Some u" and fj: "findOne ?s' j = Some v"
    consider "i = a" | "i = b" | "j = a" | "j = b" | "i \<noteq> a" "i \<noteq> b" "j \<noteq> a" "j \<noteq> b"
      by blast
    then show "(j \<in> set (friends u)) = (i \<in> set (friends v))"
    proof cases
      case 1 from rel [OF fi fj 1] show ?thesis .
    next
      case 2 from rel2 [OF fi fj 2] show ?thesis .
    next
      case 3 from rel [OF fj fi 3] show ?thesis by simp
    next
      case 4 from rel2 [OF fj fi 4] show ?thesis by simp
    next
      case 5
      then have "findOne s i = Some u" "findOne s j = Some v"
        using fi fj by (simp_all add: look)
      then show ?thesis by (rule S)
    qed
  qed
  from wf' sym' show ?thesis ..
qed

section \<open>Symmetry of the friendship relation\<close>

lemma link_invariant:
  assumes wf: "wf_store s" and sym: "symmetric s"
  shows "wf_store (snd (addFriendship s a b)) \<and> symmetric (snd (addFriendship s a b))"
proof (cases "findOne s a")
  case None
  then show ?thesis using wf sym by (simp add: addFriendship_def)
next
  case (Some this)
  have d: "distinct (map userId s)" using wf by (simp add: wf_store_iff)
  have ida: "userId this = a" using Some by (auto dest: findOne_Some)
  show ?thesis
  proof (cases "a = b \<or> b \<in> set (friends this) \<or> findOne s b = None")
    case True
    then have "snd (addFriendship s a b) = s"
      using Some ida by (auto simp: addFriendship_def addFriend_twoSided)
    then show ?thesis using wf sym by simp
  next
    case False
    then obtain friend where fb: "findOne s b = Some friend" and ne: "a \<noteq> b"
      and nb: "b \<notin> set (friends this)" by auto
    let ?x = "this\<lparr>friends := friends this @ [b]\<rparr>"
    let ?y = "friend\<lparr>friends := friends friend @ [a]\<rparr>"
    have idb: "userId friend = b" using fb by (auto dest: findOne_Some)
    have run: "snd (addFriendship s a b) = twoSided s ?x ?y"
      using Some fb ne nb ida by (simp add: addFriendship_def addFriend_twoSided)
    have "distinct (friends this)" "distinct (friends friend)"
      using wf [unfolded wf_store_lookup [OF d], rule_format, OF Some]
        wf [unfolded wf_store_lookup [OF d], rule_format, OF fb] by simp_all
    moreover have "a \<notin> set (friends friend)"
      using sym [unfolded symmetric_lookup [OF d], rule_format, OF Some fb] nb by simp
    ultimately have D: "distinct (friends ?x)" "distinct (friends ?y)"
      using nb by simp_all
    have F: "(set (friends ?x) = insert b (set (friends this))
              \<and> set (friends ?y) = insert a (set (friends friend)))
            \<or> (set (friends ?x) = set (friends this) - {b}
              \<and> set (friends ?y) = set (friends friend) - {a})"
      by simp
    show ?thesis
      unfolding run
      by (rule twoSided_invariant [OF wf sym Some fb ne _ _ F D]) (simp_all add: ida idb)
  qed
qed

lemma unlink_invariant:
  assumes wf: "wf_store s" and sym: "symmetric s"
  shows "wf_store (snd (removeFriendship s a b)) \<and> symmetric (snd (removeFriendship s a b))"
proof (cases "findOne s a")
  case None
  then show ?thesis using wf sym by (simp add: removeFriendship_def)
next
  case (Some this)
  have d: "distinct (map userId s)" using wf by (simp add: wf_store_iff)
  have ida: "userId this = a" using Some by (auto dest: findOne_Some)
  show ?thesis
  proof (cases "b \<notin> set (friends this) \<or> findOne s b = None")
    case True
    then have "snd (removeFriendship s a b) = s"
      using Some by (auto simp: removeFriendship_def removeFriend_twoSided)
    then show ?thesis using wf sym by simp
  next
    case False
    then obtain friend where fb: "findOne s b = Some friend"
      and inb: "b \<in> set (friends this)" by auto
    have Wa: "distinct (friends this)" "a \<notin> set (friends this)"
      using wf [unfolded wf_store_lookup [OF d], rule_format, OF Some] by simp_all
    have Wb: "distinct (friends friend)"
      using wf [unfolded wf_store_lookup [OF d], rule_format, OF fb] by simp
    have ne: "a \<noteq> b" using Wa(2) inb by auto
    let ?x = "this\<lparr>friends := filter (\<lambda>i. i \<noteq> b) (friends this)\<rparr>"
    let ?y = "friend\<lparr>friends := filter (\<lambda>i. i \<noteq> a) (friends friend)\<rparr>"
    have idb: "userId friend = b" using fb by (auto dest: findOne_Some)
    have run: "snd (removeFriendship s a b) = twoSided s ?x ?y"
      using Some fb inb ida by (simp add: removeFriendship_def removeFriend_twoSided)
    have D: "distinct (friends ?x)" "distinct (friends ?y)"
      using Wa(1) Wb by simp_all
    have F: "(set (friends ?x) = insert b (set (friends this))
              \<and> set (friends ?y) = insert a (set (friends friend)))
            \<or> (set (friends ?x) = set (friends this) - {b}
              \<and> set (friends ?y) = set (friends friend) - {a})"
      by auto
    show ?thesis
      unfolding run
      by (rule twoSided_invariant [OF wf sym Some fb ne _ _ F D]) (simp_all add: ida idb)
  qed
qed

lemma createUser_store:
  "snd (createUser s d newId) = s
   \<or> (findOne s newId = None
       \<and> snd (createUser s d newId) = s @ [preSave (newUser d newId)])"
  by (auto simp: createUser_def insertNew_def calculatePopularityScore_def Let_def newUser_def
      preSave_def split: option.splits if_splits)

lemma create_invariant:
  assumes wf: "wf_store s" and sym: "symmetric s"
  shows "wf_store (snd (createUser s d newId)) \<and> symmetric (snd (createUser s d newId))"
proof -
  let ?n = "preSave (newUser d newId)"
  have n: "userId ?n = newId" "friends ?n = []" by (simp_all add: newUser_def)
  have "wf_store (s @ [?n]) \<and> symmetric (s @ [?n])" if fresh: "findOne s newId = None"
  proof -
    have nid: "newId \<notin> userId ` set s" using fresh by (simp add: findOne_None)
    have W: "distinct (map userId s)"
      "\<And>u. u \<in> set s \<Longrightarrow> distinct (friends u) \<and> userId u \<notin> set (friends u)
           \<and> set (friends u) \<subseteq> userId ` set s"
      using wf by (simp_all add: wf_store_iff)
    have un: "newId \<notin> set (friends u)" if "u \<in> set s" for u
      using W(2) [OF that] nid by auto
    have "wf_store (s @ [?n])"
      unfolding wf_store_iff using W nid n by auto
    moreover have "symmetric (s @ [?n])"
      unfolding symmetric_iff using sym [unfolded symmetric_iff] un n by auto
    ultimately show ?thesis ..
  qed
  then show ?thesis
    using createUser_store [of s d newId] wf sym by auto
qed

lemma delete_invariant:
  assumes wf: "wf_store s" and sym: "symmetric s"
  shows "wf_store (snd (deleteUser s a)) \<and> symmetric (snd (deleteUser s a))"
proof (cases "\<exists>u. findOne s a = Some u \<and> friends u = []")
  case False
  then have "snd (deleteUser s a) = s"
    by (auto simp: deleteUser_def canDeleteUser_def split: option.splits)
  then show ?thesis using wf sym by simp
next
  case True
  then obtain u where fu: "findOne s a = Some u" and nf: "friends u = []" by blast
  have run: "snd (deleteUser s a) = remove1 u s"
    using fu nf by (simp add: deleteUser_def canDeleteUser_def deleteOne_def)
  have W: "distinct (map userId s)"
    "\<And>v. v \<in> set s \<Longrightarrow> distinct (friends v) \<and> userId v \<notin> set (friends v)
         \<and> set (friends v) \<subseteq> userId ` set s"
    using wf by (simp_all add: wf_store_iff)
  have ds: "distinct s" and inj: "inj_on userId (set s)"
    using W(1) by (simp_all add: distinct_map)
  have us: "u \<in> set s" using fu by (auto dest: findOne_Some)
  have mem: "set (remove1 u s) = set s - {u}" using ds by simp
  have d': "distinct (map userId (remove1 u s))"
    using ds inj by (auto simp: distinct_map mem intro: inj_on_subset)
  have nou: "userId u \<notin> set (friends v)" if "v \<in> set s" for v
    using sym [unfolded symmetric_iff] us that nf by auto
  have closed: "set (friends v) \<subseteq> userId ` (set s - {u})" if vs: "v \<in> set s" for v
  proof
    fix f assume f: "f \<in> set (friends v)"
    then obtain w where w: "w \<in> set s" "userId w = f" using W(2) [OF vs] by auto
    have "w \<noteq> u" using nou [OF vs] f w by auto
    then show "f \<in> userId ` (set s - {u})" using w by auto
  qed
  have "wf_store (remove1 u s)"
    unfolding wf_store_iff mem using d' W(2) closed by auto
  moreover have "symmetric (remove1 u s)"
    unfolding symmetric_iff mem using sym [unfolded symmetric_iff] by auto
  ultimately show ?thesis unfolding run ..
qed

text \<open>
  C3. In a collection that satisfies the data model (unique ids; every friends list a
  duplicate-free list of ids of other users of the collection) and whose friendship
  relation is symmetric (b is in a's friends iff a is in b's), the relation is symmetric
  again after \<^verbatim>\<open>addFriendship\<close>, \<^verbatim>\<open>removeFriendship\<close>, \<^verbatim>\<open>createUser\<close> and \<^verbatim>\<open>deleteUser\<close>,
  whether the call succeeds or fails. The lemmas before it show that the data model is
  kept as well.
\<close>

theorem symmetry_preserved:
  assumes "wf_store s" and "symmetric s"
  shows "symmetric (snd (addFriendship s a b))
    \<and> symmetric (snd (removeFriendship s a b))
    \<and> symmetric (snd (createUser s d newId))
    \<and> symmetric (snd (deleteUser s a))"
  using link_invariant [OF assms] unlink_invariant [OF assms] create_invariant [OF assms]
    delete_invariant [OF assms]
  by simp


theorem symmetry_preserved_witness:
  "wf_store exFriends \<and> symmetric exFriends
   \<and> addFriendship exFriends ''u1'' ''u3'' = (Inr (), exStar) \<and> symmetric exStar
   \<and> fst (removeFriendship exFriends ''u1'' ''u2'') = Inr ()
   \<and> symmetric (snd (removeFriendship exFriends ''u1'' ''u2''))
   \<and> fst (createUser exFriends exDave ''u4'') = Inr (newUser exDave ''u4'')
   \<and> symmetric (snd (createUser exFriends exDave ''u4''))
   \<and> fst (deleteUser exFriends ''u3'') = Inr True
   \<and> symmetric (snd (deleteUser exFriends ''u3''))"
proof -
  have h: "wf_store exFriends" "symmetric exFriends"
    by (simp_all add: wf_store_def symmetric_def ex_defs)
  have l: "addFriendship exFriends ''u1'' ''u3'' = (Inr (), exStar)"
    by (simp add: ex_defs op_defs)
  have u: "fst (removeFriendship exFriends ''u1'' ''u2'') = Inr ()"
    by (simp add: ex_defs op_defs)
  have c: "fst (createUser exFriends exDave ''u4'') = Inr (newUser exDave ''u4'')"
    by (simp add: ex_defs exDave_def createUser_def findOneByUsername_def findOne_def
        newUser_def trim_def isSpace_def validUsername_def validAge_def validHobbies_def
        insertNew_def preSave_def uniq_def calculatePopularityScore_def Let_def)
  have r: "fst (deleteUser exFriends ''u3'') = Inr True"
    by (simp add: ex_defs deleteUser_def canDeleteUser_def findOne_def)
  from symmetry_preserved [OF h, of "''u1''" "''u3''"] have "symmetric exStar"
    unfolding l by simp
  moreover from symmetry_preserved [OF h, of "''u1''" "''u2''" exDave "''u4''"]
  have "symmetric (snd (removeFriendship exFriends ''u1'' ''u2''))"
    and "symmetric (snd (createUser exFriends exDave ''u4''))"
    by simp_all
  moreover from symmetry_preserved [OF h, of "''u3''"]
  have "symmetric (snd (deleteUser exFriends ''u3''))"
    by simp
  ultimately show ?thesis using h l u c r by (intro conjI)
qed

section \<open>Stored scores after a mutation\<close>

lemma twoSided_scores:
  assumes d: "distinct (map userId s)"
    and fa: "findOne s a \<noteq> None" and fb: "findOne s b \<noteq> None" and ne: "a \<noteq> b"
    and X: "userId x = a" "userId y = b"
    and D: "distinct (friends x)" "distinct (friends y)"
  shows "\<exists>u v. findOne (twoSided s x y) a = Some u \<and> findOne (twoSided s x y) b = Some v
      \<and> friends u = friends x \<and> friends v = friends y
      \<and> (friends u \<noteq> [] \<longrightarrow> popularityScore u = spec_score (twoSided s x y) u)
      \<and> (friends v \<noteq> [] \<longrightarrow> popularityScore v = spec_score (twoSided s x y) v)
      \<and> (\<forall>i. i \<noteq> a \<longrightarrow> i \<noteq> b \<longrightarrow> findOne (twoSided s x y) i = findOne s i)"
proof -
  have nx: "findOne s (userId x) \<noteq> None" and ny: "findOne s (userId y) \<noteq> None"
    and nxy: "userId x \<noteq> userId y"
    using fa fb ne X by simp_all
  from twoSided_props [OF d nx ny nxy] obtain x' y' where
    look: "\<And>i. findOne (twoSided s x y) i =
           (if i = a then Some x' else if i = b then Some y' else findOne s i)"
    and fx: "friends x' = friends x" and fy: "friends y' = friends y"
    and px: "friends x \<noteq> [] \<longrightarrow> distinct (friends x) \<longrightarrow>
           popularityScore x' = spec_score (twoSided s x y) x'"
    and py: "friends y \<noteq> [] \<longrightarrow> distinct (friends y) \<longrightarrow>
           popularityScore y' = spec_score (twoSided s x y) y'"
    unfolding X by blast
  have "findOne (twoSided s x y) a = Some x'" "findOne (twoSided s x y) b = Some y'"
    using ne by (simp_all add: look)
  moreover have "\<forall>i. i \<noteq> a \<longrightarrow> i \<noteq> b \<longrightarrow> findOne (twoSided s x y) i = findOne s i"
    by (simp add: look)
  moreover have "friends x' \<noteq> [] \<longrightarrow> popularityScore x' = spec_score (twoSided s x y) x'"
    using px D(1) fx by simp
  moreover have "friends y' \<noteq> [] \<longrightarrow> popularityScore y' = spec_score (twoSided s x y) y'"
    using py D(2) fy by simp
  ultimately show ?thesis using fx fy by blast
qed

lemma link_scores:
  assumes wf: "wf_store s" and sym: "symmetric s"
    and ok: "fst (addFriendship s a b) = Inr ()"
  shows "\<exists>u v. findOne (snd (addFriendship s a b)) a = Some u
      \<and> findOne (snd (addFriendship s a b)) b = Some v
      \<and> popularityScore u = spec_score (snd (addFriendship s a b)) u
      \<and> popularityScore v = spec_score (snd (addFriendship s a b)) v
      \<and> (\<forall>i. i \<noteq> a \<longrightarrow> i \<noteq> b \<longrightarrow> findOne (snd (addFriendship s a b)) i = findOne s i)"
proof -
  have d: "distinct (map userId s)" using wf by (simp add: wf_store_iff)
  from ok obtain this where fa: "findOne s a = Some this"
    by (cases "findOne s a") (simp_all add: addFriendship_def)
  have ida: "userId this = a" using fa by (auto dest: findOne_Some)
  from ok fa ida have ne: "a \<noteq> b" and nb: "b \<notin> set (friends this)"
    by (auto simp: addFriendship_def addFriend_twoSided split: if_splits)
  from ok fa ida ne nb obtain friend where fb: "findOne s b = Some friend"
    by (cases "findOne s b") (simp_all add: addFriendship_def addFriend_twoSided)
  have idb: "userId friend = b" using fb by (auto dest: findOne_Some)
  let ?x = "this\<lparr>friends := friends this @ [b]\<rparr>"
  let ?y = "friend\<lparr>friends := friends friend @ [a]\<rparr>"
  have run: "snd (addFriendship s a b) = twoSided s ?x ?y"
    using fa fb ne nb ida by (simp add: addFriendship_def addFriend_twoSided)
  have "distinct (friends this)" "distinct (friends friend)"
    using wf [unfolded wf_store_lookup [OF d], rule_format, OF fa]
      wf [unfolded wf_store_lookup [OF d], rule_format, OF fb] by simp_all
  moreover have "a \<notin> set (friends friend)"
    using sym [unfolded symmetric_lookup [OF d], rule_format, OF fa fb] nb by simp
  ultimately have D: "distinct (friends ?x)" "distinct (friends ?y)"
    using nb by simp_all
  have na: "findOne s a \<noteq> None" and nb': "findOne s b \<noteq> None" using fa fb by simp_all
  have X: "userId ?x = a" "userId ?y = b" using ida idb by simp_all
  from twoSided_scores [OF d na nb' ne X D] obtain u v where
    "findOne (twoSided s ?x ?y) a = Some u" "findOne (twoSided s ?x ?y) b = Some v"
    "friends u = friends ?x" "friends v = friends ?y"
    "friends u \<noteq> [] \<longrightarrow> popularityScore u = spec_score (twoSided s ?x ?y) u"
    "friends v \<noteq> [] \<longrightarrow> popularityScore v = spec_score (twoSided s ?x ?y) v"
    "\<forall>i. i \<noteq> a \<longrightarrow> i \<noteq> b \<longrightarrow> findOne (twoSided s ?x ?y) i = findOne s i"
    by blast
  then show ?thesis
    unfolding run by (intro exI [of _ u] exI [of _ v]) simp
qed

lemma unlink_scores:
  assumes wf: "wf_store s"
    and ok: "fst (removeFriendship s a b) = Inr ()"
  shows "\<exists>u v. findOne (snd (removeFriendship s a b)) a = Some u
      \<and> findOne (snd (removeFriendship s a b)) b = Some v
      \<and> (friends u \<noteq> [] \<longrightarrow> popularityScore u = spec_score (snd (removeFriendship s a b)) u)
      \<and> (friends v \<noteq> [] \<longrightarrow> popularityScore v = spec_score (snd (removeFriendship s a b)) v)
      \<and> (\<forall>i. i \<noteq> a \<longrightarrow> i \<noteq> b \<longrightarrow> findOne (snd (removeFriendship s a b)) i = findOne s i)"
proof -
  have d: "distinct (map userId s)" using wf by (simp add: wf_store_iff)
  from ok obtain this where fa: "findOne s a = Some this"
    by (cases "findOne s a") (simp_all add: removeFriendship_def)
  have ida: "userId this = a" using fa by (auto dest: findOne_Some)
  from ok fa have inb: "b \<in> set (friends this)"
    by (auto simp: removeFriendship_def removeFriend_twoSided split: if_splits)
  from ok fa inb obtain friend where fb: "findOne s b = Some friend"
    by (cases "findOne s b") (simp_all add: removeFriendship_def removeFriend_twoSided)
  have idb: "userId friend = b" using fb by (auto dest: findOne_Some)
  have Wa: "distinct (friends this)" "a \<notin> set (friends this)"
    using wf [unfolded wf_store_lookup [OF d], rule_format, OF fa] by simp_all
  have Wb: "distinct (friends friend)"
    using wf [unfolded wf_store_lookup [OF d], rule_format, OF fb] by simp
  have ne: "a \<noteq> b" using Wa(2) inb by auto
  let ?x = "this\<lparr>friends := filter (\<lambda>i. i \<noteq> b) (friends this)\<rparr>"
  let ?y = "friend\<lparr>friends := filter (\<lambda>i. i \<noteq> a) (friends friend)\<rparr>"
  have run: "snd (removeFriendship s a b) = twoSided s ?x ?y"
    using fa fb inb ida by (simp add: removeFriendship_def removeFriend_twoSided)
  have D: "distinct (friends ?x)" "distinct (friends ?y)"
    using Wa(1) Wb by simp_all
  have na: "findOne s a \<noteq> None" and nb': "findOne s b \<noteq> None" using fa fb by simp_all
  have X: "userId ?x = a" "userId ?y = b" using ida idb by simp_all
  from twoSided_scores [OF d na nb' ne X D] obtain u v where
    "findOne (twoSided s ?x ?y) a = Some u" "findOne (twoSided s ?x ?y) b = Some v"
    "friends u \<noteq> [] \<longrightarrow> popularityScore u = spec_score (twoSided s ?x ?y) u"
    "friends v \<noteq> [] \<longrightarrow> popularityScore v = spec_score (twoSided s ?x ?y) v"
    "\<forall>i. i \<noteq> a \<longrightarrow> i \<noteq> b \<longrightarrow> findOne (twoSided s ?x ?y) i = findOne s i"
    by blast
  then show ?thesis
    unfolding run by (intro exI [of _ u] exI [of _ v]) simp
qed

lemma save_then_recompute:
  assumes d: "distinct (map userId s)"
    and fu: "findOne s a = Some user"
    and X: "userId x = a" "friends x = friends user"
    and D: "distinct (friends user)"
  shows "let r = calculatePopularityScore (replaceDoc s (preSave x)) (preSave x)
     in findOne (snd (snd r)) a = Some (fst (snd r))
      \<and> (friends (fst (snd r)) \<noteq> [] \<longrightarrow>
            popularityScore (fst (snd r)) = spec_score (snd (snd r)) (fst (snd r)))
      \<and> (\<forall>i. i \<noteq> a \<longrightarrow> findOne (snd (snd r)) i = findOne s i)"
proof -
  let ?x2 = "preSave x"
  let ?s1 = "replaceDoc s ?x2"
  have d1: "distinct (map userId ?s1)" using d by simp
  have st: "findOne ?s1 (userId ?x2) = Some ?x2"
    using fu X(1) by (simp add: findOne_replaceDoc)
  from recompute_stored [OF d1 st] obtain x' where
    s': "snd (snd (calculatePopularityScore ?s1 ?x2)) = replaceDoc ?s1 x'"
    and v: "fst (snd (calculatePopularityScore ?s1 ?x2)) = x'"
    and x': "userId x' = userId ?x2" "friends x' = friends ?x2"
    and p: "friends ?x2 \<noteq> [] \<longrightarrow> distinct (friends ?x2) \<longrightarrow>
            popularityScore x' = spec_score (replaceDoc ?s1 x') x'"
    by auto
  have "findOne (replaceDoc ?s1 x') a = Some x'"
    using fu X(1) x'(1) by (simp add: findOne_replaceDoc)
  moreover have "friends x' \<noteq> [] \<longrightarrow> popularityScore x' = spec_score (replaceDoc ?s1 x') x'"
    using p x'(2) X(2) D by simp
  moreover have "\<forall>i. i \<noteq> a \<longrightarrow> findOne (replaceDoc ?s1 x') i = findOne s i"
    using X(1) x'(1) by (simp add: findOne_replaceDoc)
  ultimately show ?thesis
    unfolding Let_def s' v by blast
qed

lemma assign_simps [simp]:
  "userId (assign user upd) = userId user"
  "friends (assign user upd) = friends user"
  by (simp_all add: assign_def)

lemma hobby_update_scores:
  assumes wf: "wf_store s"
    and ok: "fst (updateUser s a upd) = Inr (Some v)" and hb: "upd_hobbies upd \<noteq> None"
  shows "findOne (snd (updateUser s a upd)) a = Some v
      \<and> (friends v \<noteq> [] \<longrightarrow> popularityScore v = spec_score (snd (updateUser s a upd)) v)
      \<and> (\<forall>i. i \<noteq> a \<longrightarrow> findOne (snd (updateUser s a upd)) i = findOne s i)"
proof -
  have d: "distinct (map userId s)" using wf by (simp add: wf_store_iff)
  from ok obtain user where fu: "findOne s a = Some user"
    by (cases "findOne s a") (simp_all add: updateUser_def)
  have ida: "userId user = a" using fu by (auto dest: findOne_Some)
  have D: "distinct (friends user)"
    using wf [unfolded wf_store_lookup [OF d], rule_format, OF fu] by simp
  let ?x = "assign user upd"
  let ?r = "calculatePopularityScore (replaceDoc s (preSave ?x)) (preSave ?x)"
  have run: "updateUser s a upd = (Inr (Some (fst (snd ?r))), snd (snd ?r))"
    using ok fu hb
    by (simp add: updateUser_def save_eq Let_def case_prod_beta split: if_splits)
  have v: "v = fst (snd ?r)" using ok unfolding run by simp
  from save_then_recompute [OF d fu, of ?x] ida D show ?thesis
    unfolding run v by (simp add: Let_def)
qed

lemma hobby_removal_scores:
  assumes wf: "wf_store s"
    and ok: "fst (removeHobby s a h) = Inr (Some v)"
  shows "findOne (snd (removeHobby s a h)) a = Some v
      \<and> (friends v \<noteq> [] \<longrightarrow> popularityScore v = spec_score (snd (removeHobby s a h)) v)
      \<and> (\<forall>i. i \<noteq> a \<longrightarrow> findOne (snd (removeHobby s a h)) i = findOne s i)"
proof -
  have d: "distinct (map userId s)" using wf by (simp add: wf_store_iff)
  from ok obtain user where fu: "findOne s a = Some user"
    by (cases "findOne s a") (simp_all add: removeHobby_def)
  have ida: "userId user = a" using fu by (auto dest: findOne_Some)
  have D: "distinct (friends user)"
    using wf [unfolded wf_store_lookup [OF d], rule_format, OF fu] by simp
  let ?x = "user\<lparr>hobbies := filter (\<lambda>h'. h' \<noteq> h) (hobbies user)\<rparr>"
  let ?r = "calculatePopularityScore (replaceDoc s (preSave ?x)) (preSave ?x)"
  have run: "removeHobby s a h = (Inr (Some (fst (snd ?r))), snd (snd ?r))"
    using ok fu
    by (simp add: removeHobby_def save_eq Let_def case_prod_beta split: if_splits)
  have v: "v = fst (snd ?r)" using ok unfolding run by simp
  from save_then_recompute [OF d fu, of ?x] ida D show ?thesis
    unfolding run v by (simp add: Let_def)
qed

lemma create_scores:
  assumes ok: "fst (createUser s d newId) = Inr v"
  shows "findOne (snd (createUser s d newId)) newId = Some v
      \<and> popularityScore v = 0 \<and> spec_score (snd (createUser s d newId)) v = 0
      \<and> (\<forall>i. i \<noteq> newId \<longrightarrow> findOne (snd (createUser s d newId)) i = findOne s i)"
proof -
  let ?n = "preSave (newUser d newId)"
  from createUser_success [OF ok]
  have run: "createUser s d newId = (Inr ?n, s @ [?n])" by simp
  have v: "v = ?n" using ok unfolding run by simp
  have fresh: "findOne s newId = None"
    using ok by (auto simp: createUser_def Let_def split: option.splits if_splits)
  have n: "userId ?n = newId" "friends ?n = []" "popularityScore ?n = 0"
    by (simp_all add: newUser_def)
  show ?thesis
    unfolding run v using fresh n
    by (auto simp: findOne_append spec_score_no_friends split: option.splits)
qed

text \<open>
  C1 (as the code has it). In a collection that satisfies the data model and whose
  friendship relation is symmetric, a completed mutation leaves the stored score of every
  user it recomputes equal to the formula on the new collection, provided that user has a
  friend then: both users of a link (each has a friend afterwards), each user of an unlink
  who still has a friend, and the edited user of a hobby update or a hobby removal who has
  a friend. A created user is stored with score 0, which is the formula on no friends. No
  document of another id is touched: in particular the friends of a user whose hobbies
  change keep their stored scores. Nothing is stated here about the stored score of a
  recomputed user who is left without a friend.
\<close>

theorem recomputed_scores:
  assumes "wf_store s" and "symmetric s"
  shows
    "(fst (addFriendship s a b) = Inr () \<longrightarrow>
        scoreCurrent (snd (addFriendship s a b)) a \<and> scoreCurrent (snd (addFriendship s a b)) b
        \<and> (\<forall>i. i \<noteq> a \<longrightarrow> i \<noteq> b \<longrightarrow> findOne (snd (addFriendship s a b)) i = findOne s i))
     \<and> (fst (removeFriendship s a b) = Inr () \<longrightarrow>
        (hasFriend (snd (removeFriendship s a b)) a \<longrightarrow>
           scoreCurrent (snd (removeFriendship s a b)) a)
        \<and> (hasFriend (snd (removeFriendship s a b)) b \<longrightarrow>
           scoreCurrent (snd (removeFriendship s a b)) b)
        \<and> (\<forall>i. i \<noteq> a \<longrightarrow> i \<noteq> b \<longrightarrow> findOne (snd (removeFriendship s a b)) i = findOne s i))
     \<and> (fst (updateUser s a upd) = Inr (Some v) \<and> upd_hobbies upd \<noteq> None \<longrightarrow>
        (hasFriend (snd (updateUser s a upd)) a \<longrightarrow> scoreCurrent (snd (updateUser s a upd)) a)
        \<and> (\<forall>i. i \<noteq> a \<longrightarrow> findOne (snd (updateUser s a upd)) i = findOne s i))
     \<and> (fst (removeHobby s a h) = Inr (Some w) \<longrightarrow>
        (hasFriend (snd (removeHobby s a h)) a \<longrightarrow> scoreCurrent (snd (removeHobby s a h)) a)
        \<and> (\<forall>i. i \<noteq> a \<longrightarrow> findOne (snd (removeHobby s a h)) i = findOne s i))
     \<and> (fst (createUser s d newId) = Inr n \<longrightarrow>
        findOne (snd (createUser s d newId)) newId = Some n
        \<and> popularityScore n = 0 \<and> scoreCurrent (snd (createUser s d newId)) newId
        \<and> (\<forall>i. i \<noteq> newId \<longrightarrow> findOne (snd (createUser s d newId)) i = findOne s i))"
proof -
  have link: "fst (addFriendship s a b) = Inr () \<longrightarrow>
        scoreCurrent (snd (addFriendship s a b)) a \<and> scoreCurrent (snd (addFriendship s a b)) b
        \<and> (\<forall>i. i \<noteq> a \<longrightarrow> i \<noteq> b \<longrightarrow> findOne (snd (addFriendship s a b)) i = findOne s i)"
  proof
    assume "fst (addFriendship s a b) = Inr ()"
    from link_scores [OF assms this] show "scoreCurrent (snd (addFriendship s a b)) a
        \<and> scoreCurrent (snd (addFriendship s a b)) b
        \<and> (\<forall>i. i \<noteq> a \<longrightarrow> i \<noteq> b \<longrightarrow> findOne (snd (addFriendship s a b)) i = findOne s i)"
      by (auto simp: scoreCurrent_def)
  qed
  have unlink: "fst (removeFriendship s a b) = Inr () \<longrightarrow>
        (hasFriend (snd (removeFriendship s a b)) a \<longrightarrow>
           scoreCurrent (snd (removeFriendship s a b)) a)
        \<and> (hasFriend (snd (removeFriendship s a b)) b \<longrightarrow>
           scoreCurrent (snd (removeFriendship s a b)) b)
        \<and> (\<forall>i. i \<noteq> a \<longrightarrow> i \<noteq> b \<longrightarrow> findOne (snd (removeFriendship s a b)) i = findOne s i)"
  proof
    assume "fst (removeFriendship s a b) = Inr ()"
    from unlink_scores [OF assms(1) this]
    show "(hasFriend (snd (removeFriendship s a b)) a \<longrightarrow>
           scoreCurrent (snd (removeFriendship s a b)) a)
        \<and> (hasFriend (snd (removeFriendship s a b)) b \<longrightarrow>
           scoreCurrent (snd (removeFriendship s a b)) b)
        \<and> (\<forall>i. i \<noteq> a \<longrightarrow> i \<noteq> b \<longrightarrow> findOne (snd (removeFriendship s a b)) i = findOne s i)"
      by (auto simp: scoreCurrent_def hasFriend_def)
  qed
  have update: "fst (updateUser s a upd) = Inr (Some v) \<and> upd_hobbies upd \<noteq> None \<longrightarrow>
        (hasFriend (snd (updateUser s a upd)) a \<longrightarrow> scoreCurrent (snd (updateUser s a upd)) a)
        \<and> (\<forall>i. i \<noteq> a \<longrightarrow> findOne (snd (updateUser s a upd)) i = findOne s i)"
  proof
    assume "fst (updateUser s a upd) = Inr (Some v) \<and> upd_hobbies upd \<noteq> None"
    then have "fst (updateUser s a upd) = Inr (Some v)" "upd_hobbies upd \<noteq> None" by simp_all
    from hobby_update_scores [OF assms(1) this]
    show "(hasFriend (snd (updateUser s a upd)) a \<longrightarrow> scoreCurrent (snd (updateUser s a upd)) a)
        \<and> (\<forall>i. i \<noteq> a \<longrightarrow> findOne (snd (updateUser s a upd)) i = findOne s i)"
      by (auto simp: scoreCurrent_def hasFriend_def)
  qed
  have removal: "fst (removeHobby s a h) = Inr (Some w) \<longrightarrow>
        (hasFriend (snd (removeHobby s a h)) a \<longrightarrow> scoreCurrent (snd (removeHobby s a h)) a)
        \<and> (\<forall>i. i \<noteq> a \<longrightarrow> findOne (snd (removeHobby s a h)) i = findOne s i)"
  proof
    assume "fst (removeHobby s a h) = Inr (Some w)"
    from hobby_removal_scores [OF assms(1) this]
    show "(hasFriend (snd (removeHobby s a h)) a \<longrightarrow> scoreCurrent (snd (removeHobby s a h)) a)
        \<and> (\<forall>i. i \<noteq> a \<longrightarrow> findOne (snd (removeHobby s a h)) i = findOne s i)"
      by (auto simp: scoreCurrent_def hasFriend_def)
  qed
  have create: "fst (createUser s d newId) = Inr n \<longrightarrow>
        findOne (snd (createUser s d newId)) newId = Some n
        \<and> popularityScore n = 0 \<and> scoreCurrent (snd (createUser s d newId)) newId
        \<and> (\<forall>i. i \<noteq> newId \<longrightarrow> findOne (snd (createUser s d newId)) i = findOne s i)"
  proof
    assume "fst (createUser s d newId) = Inr n"
    from create_scores [OF this]
    show "findOne (snd (createUser s d newId)) newId = Some n
        \<and> popularityScore n = 0 \<and> scoreCurrent (snd (createUser s d newId)) newId
        \<and> (\<forall>i. i \<noteq> newId \<longrightarrow> findOne (snd (createUser s d newId)) i = findOne s i)"
      by (auto simp: scoreCurrent_def)
  qed
  from link unlink update removal create show ?thesis by (intro conjI)
qed


theorem recomputed_scores_witness:
  "wf_store exStar \<and> symmetric exStar
   \<and> fst (addFriendship exStar ''u2'' ''u3'') = Inr ()
   \<and> scoreCurrent (snd (addFriendship exStar ''u2'' ''u3'')) ''u2''
   \<and> scoreCurrent (snd (addFriendship exStar ''u2'' ''u3'')) ''u3''
   \<and> fst (removeFriendship exStar ''u1'' ''u3'') = Inr ()
   \<and> hasFriend (snd (removeFriendship exStar ''u1'' ''u3'')) ''u1''
   \<and> scoreCurrent (snd (removeFriendship exStar ''u1'' ''u3'')) ''u1''
   \<and> hasFriend (snd (updateUser exStar ''u1'' exChess)) ''u1''
   \<and> scoreCurrent (snd (updateUser exStar ''u1'' exChess)) ''u1''
   \<and> hasFriend (snd (removeHobby exStar ''u1'' ''coding'')) ''u1''
   \<and> scoreCurrent (snd (removeHobby exStar ''u1'' ''coding'')) ''u1''
   \<and> fst (createUser exStar exDave ''u4'') = Inr (newUser exDave ''u4'')
   \<and> scoreCurrent (snd (createUser exStar exDave ''u4'')) ''u4''"
proof -
  have h: "wf_store exStar" "symmetric exStar"
    by (simp_all add: wf_store_def symmetric_def ex_defs)
  have l: "fst (addFriendship exStar ''u2'' ''u3'') = Inr ()"
    by (simp add: ex_defs op_defs)
  have u: "fst (removeFriendship exStar ''u1'' ''u3'') = Inr ()"
    by (simp add: ex_defs op_defs)
  have uf: "hasFriend (snd (removeFriendship exStar ''u1'' ''u3'')) ''u1''"
    by (simp add: ex_defs op_defs hasFriend_def)
  have p: "fst (updateUser exStar ''u1'' exChess)
      = Inr (Some (exAlice\<lparr>hobbies := [''chess''], friends := [''u2'', ''u3''],
                     popularityScore := 2\<rparr>))"
    by (simp add: ex_defs exChess_def updateUser_def assign_def validHobbies_def op_defs)
  have pf: "hasFriend (snd (updateUser exStar ''u1'' exChess)) ''u1''"
    by (simp add: ex_defs exChess_def updateUser_def assign_def validHobbies_def op_defs
        hasFriend_def)
  have r: "fst (removeHobby exStar ''u1'' ''coding'')
      = Inr (Some (exAlice\<lparr>hobbies := [''gaming''], friends := [''u2'', ''u3''],
                     popularityScore := 2.5\<rparr>))"
    by (simp add: ex_defs removeHobby_def op_defs)
  have rf: "hasFriend (snd (removeHobby exStar ''u1'' ''coding'')) ''u1''"
    by (simp add: ex_defs removeHobby_def op_defs hasFriend_def)
  have c: "fst (createUser exStar exDave ''u4'') = Inr (newUser exDave ''u4'')"
    by (simp add: ex_defs exDave_def createUser_def findOneByUsername_def findOne_def
        newUser_def trim_def isSpace_def validUsername_def validAge_def validHobbies_def
        insertNew_def preSave_def uniq_def calculatePopularityScore_def Let_def)
  note t = recomputed_scores [OF h]
  from t [where a = "''u2''" and b = "''u3''", THEN conjunct1] l
  have 1: "scoreCurrent (snd (addFriendship exStar ''u2'' ''u3'')) ''u2''"
    "scoreCurrent (snd (addFriendship exStar ''u2'' ''u3'')) ''u3''" by simp_all
  from t [where a = "''u1''" and b = "''u3''", THEN conjunct2, THEN conjunct1] u uf
  have 2: "scoreCurrent (snd (removeFriendship exStar ''u1'' ''u3'')) ''u1''" by simp
  from t [where a = "''u1''" and upd = exChess, THEN conjunct2, THEN conjunct2, THEN conjunct1]
    p pf
  have 3: "scoreCurrent (snd (updateUser exStar ''u1'' exChess)) ''u1''"
    by (simp add: exChess_def)
  from t [where a = "''u1''" and h = "''coding''",
      THEN conjunct2, THEN conjunct2, THEN conjunct2, THEN conjunct1] r rf
  have 4: "scoreCurrent (snd (removeHobby exStar ''u1'' ''coding'')) ''u1''" by simp
  from t [where d = exDave and newId = "''u4''",
      THEN conjunct2, THEN conjunct2, THEN conjunct2, THEN conjunct2] c
  have 5: "scoreCurrent (snd (createUser exStar exDave ''u4'')) ''u4''" by simp
  from h l 1 u uf 2 pf 3 rf 4 c 5 show ?thesis by (intro conjI)
qed

text \<open>
  C1 as stated fails. Alice and bob are friends and every stored score is the formula.
  Alice's hobbies are updated; the call succeeds and recomputes alice only. Bob's stored
  score is still 1.5, while the formula on bob's friends and their hobbies now gives 1.
\<close>

theorem friend_hobby_update_counterexample:
  "scoresConsistent exFriends
   \<and> fst (updateUser exFriends ''u1'' exChess)
       = Inr (Some (exAlice\<lparr>hobbies := [''chess''], friends := [''u2''], popularityScore := 1\<rparr>))
   \<and> \<not> scoresConsistent (snd (updateUser exFriends ''u1'' exChess))
   \<and> \<not> scoreCurrent (snd (updateUser exFriends ''u1'' exChess)) ''u2''"
proof -
  have a: "scoresConsistent exFriends"
    by (simp add: scoresConsistent_def spec_score_def hobbiesOf_def findOne_def round2_def ex_defs)
  have s': "updateUser exFriends ''u1'' exChess
      = (Inr (Some (exAlice\<lparr>hobbies := [''chess''], friends := [''u2''], popularityScore := 1\<rparr>)),
         [exAlice\<lparr>hobbies := [''chess''], friends := [''u2''], popularityScore := 1\<rparr>,
          exBob\<lparr>friends := [''u1''], popularityScore := 1.5\<rparr>, exCarol])"
    by (simp add: ex_defs exChess_def updateUser_def assign_def validHobbies_def op_defs)
  have b: "\<not> scoreCurrent (snd (updateUser exFriends ''u1'' exChess)) ''u2''"
    unfolding s'
    by (simp add: scoreCurrent_def spec_score_def hobbiesOf_def findOne_def round2_def ex_defs)
  have c: "\<not> scoresConsistent (snd (updateUser exFriends ''u1'' exChess))"
    unfolding s'
    by (simp add: scoresConsistent_def spec_score_def hobbiesOf_def findOne_def round2_def ex_defs)
  from a s' b c show ?thesis by simp
qed

text \<open>
  The early return of \<^verbatim>\<open>calculatePopularityScore\<close>. With no friend left it returns 0 before
  it assigns and saves the score: after alice and bob, each other's only friend, are
  unlinked, both are stored with the score 1.5 they had, while the formula gives 0.
\<close>

lemma last_unlink_keeps_score:
  "removeFriendship exFriends ''u1'' ''u2''
     = (Inr (), [exAlice\<lparr>popularityScore := 1.5\<rparr>, exBob\<lparr>popularityScore := 1.5\<rparr>, exCarol])
   \<and> spec_score (snd (removeFriendship exFriends ''u1'' ''u2'')) (exAlice\<lparr>popularityScore := 1.5\<rparr>) = 0
   \<and> \<not> scoreCurrent (snd (removeFriendship exFriends ''u1'' ''u2'')) ''u1''"
proof -
  have s': "removeFriendship exFriends ''u1'' ''u2''
     = (Inr (), [exAlice\<lparr>popularityScore := 1.5\<rparr>, exBob\<lparr>popularityScore := 1.5\<rparr>, exCarol])"
    by (simp add: ex_defs op_defs)
  show ?thesis
    unfolding s'
    by (simp add: scoreCurrent_def spec_score_def hobbiesOf_def findOne_def round2_def ex_defs)
qed

end
